theory Spec2Isabelle
  imports Main "HOL-Library.Word"
begin

section \<open>Machine types of \<^verbatim>\<open>ReceiveSurfaceAsync.c\<close>\<close>

text \<open>
  The program is C against the Gocator SDK, built for Windows. Its fixed-width types are
  words of that width. A \<^verbatim>\<open>k64f\<close> (a C double) is kept as its IEEE-754 binary64 bit
  pattern, which is what \<^verbatim>\<open>fwrite\<close> copies into the output file.
\<close>

type_synonym byte = "8 word"
type_synonym WORD = "16 word"
type_synonym k16s = "16 word"
type_synonym k16u = "16 word"
type_synonym k32u = "32 word"
type_synonym k32s = "32 word"
type_synonym k64u = "64 word"
type_synonym k64f = "64 word"

subsection \<open>Object representation\<close>

text \<open>
  \<^verbatim>\<open>fwrite(&x, sizeof(x), 1, fptr)\<close> copies the bytes of the object \<^verbatim>\<open>x\<close> as they lie in
  memory. On the machines Windows runs on the least significant byte comes first.
  \<open>le_bytes n v\<close> are the \<open>n\<close> bytes of the number \<open>v\<close> in that order, and \<open>le_value\<close>
  reads such bytes back.
\<close>

fun le_bytes :: "nat \<Rightarrow> nat \<Rightarrow> byte list" where
  "le_bytes 0 v = []"
| "le_bytes (Suc n) v = of_nat (v mod 256) # le_bytes n (v div 256)"

fun le_value :: "byte list \<Rightarrow> nat" where
  "le_value [] = 0"
| "le_value (b # bs) = unat b + 256 * le_value bs"

definition bytes_k16s :: "k16s \<Rightarrow> byte list" where
  "bytes_k16s x = le_bytes 2 (unat x)"

definition bytes_k32u :: "k32u \<Rightarrow> byte list" where
  "bytes_k32u x = le_bytes 4 (unat x)"

definition bytes_k64u :: "k64u \<Rightarrow> byte list" where
  "bytes_k64u x = le_bytes 8 (unat x)"

definition bytes_k64f :: "k64f \<Rightarrow> byte list" where
  "bytes_k64f x = le_bytes 8 (unat x)"

definition bytes_chars :: "string \<Rightarrow> byte list" where
  "bytes_chars s = map (\<lambda>c. of_nat (of_char c)) s"

text \<open>A buffer of \<^verbatim>\<open>k16s\<close> samples, as \<^verbatim>\<open>GoSurfaceMsg_RowAt\<close> returns it.\<close>

definition bytes_row :: "k16s list \<Rightarrow> byte list" where
  "bytes_row data = concat (map bytes_k16s data)"

subsection \<open>The conversions \<^verbatim>\<open>NM_TO_MM\<close> and \<^verbatim>\<open>UM_TO_MM\<close>\<close>

text \<open>
  \<^verbatim>\<open>#define NM_TO_MM(VALUE) (((k64f)(VALUE))/1000000.0)\<close>
  \<^verbatim>\<open>#define UM_TO_MM(VALUE) (((k64f)(VALUE))/1000.0)\<close>

  The argument is a 32-bit integer of the SDK, so the cast to \<^verbatim>\<open>k64f\<close> is exact, and the
  IEEE-754 division gives the binary64 number nearest to the exact quotient, ties to the
  even significand. \<open>k64f_nearest n d\<close> computes the exponent and fraction bits of that
  number for the quotient \<open>n / d\<close> of two positive integers (a quotient of the normal
  range, as every such quotient here is), \<open>k64f_of_ratio\<close> adds the sign bit.
\<close>

fun bitlen_nat :: "nat \<Rightarrow> nat" where
  "bitlen_nat n = (if n = 0 then 0 else Suc (bitlen_nat (n div 2)))"

declare bitlen_nat.simps [simp del]

definition scaled_quotient :: "nat \<Rightarrow> nat \<Rightarrow> int \<Rightarrow> nat \<times> nat" where
  \<comment> \<open>numerator and denominator of \<open>n / (d * 2 ^ e)\<close>\<close>
  "scaled_quotient n d e =
     (if 0 \<le> e then (n, d * 2 ^ nat e) else (n * 2 ^ nat (- e), d))"

definition round_half_even :: "nat \<Rightarrow> nat \<Rightarrow> nat" where
  \<comment> \<open>the integer nearest to \<open>a / b\<close>, a tie going to the even one\<close>
  "round_half_even a b =
     (let q = a div b; r = a mod b
      in if b < 2 * r \<or> (2 * r = b \<and> odd q) then q + 1 else q)"

definition k64f_nearest :: "nat \<Rightarrow> nat \<Rightarrow> nat" where
  "k64f_nearest n d =
     (let e0 = int (bitlen_nat n) - int (bitlen_nat d) - 53;
          (a0, b0) = scaled_quotient n d e0;
          e = (if 2 ^ 53 \<le> a0 div b0 then e0 + 1 else e0);
          (a, b) = scaled_quotient n d e;
          m = round_half_even a b
      in nat (e + 1074) * 2 ^ 52 + m)"

definition k64f_of_ratio :: "int \<Rightarrow> nat \<Rightarrow> k64f" where
  "k64f_of_ratio n d =
     (if n = 0 then 0
      else of_nat ((if n < 0 then 2 ^ 63 else 0) + k64f_nearest (nat \<bar>n\<bar>) d))"

definition NM_TO_MM :: "int \<Rightarrow> k64f" where
  "NM_TO_MM VALUE = k64f_of_ratio VALUE 1000000"

definition UM_TO_MM :: "int \<Rightarrow> k64f" where
  "UM_TO_MM VALUE = k64f_of_ratio VALUE 1000"

text \<open>The number a finite \<^verbatim>\<open>k64f\<close> stands for is \<open>(-1) ^ sign * significand * 2 ^ exponent\<close>.\<close>

definition k64f_sign :: "k64f \<Rightarrow> bool" where
  "k64f_sign x = (2 ^ 63 \<le> unat x)"

definition k64f_biased_exponent :: "k64f \<Rightarrow> nat" where
  "k64f_biased_exponent x = unat x div 2 ^ 52 mod 2048"

definition k64f_fraction :: "k64f \<Rightarrow> nat" where
  "k64f_fraction x = unat x mod 2 ^ 52"

definition k64f_significand :: "k64f \<Rightarrow> nat" where
  "k64f_significand x =
     (if k64f_biased_exponent x = 0 then k64f_fraction x else 2 ^ 52 + k64f_fraction x)"

definition k64f_exponent :: "k64f \<Rightarrow> int" where
  "k64f_exponent x =
     (if k64f_biased_exponent x = 0 then - 1074 else int (k64f_biased_exponent x) - 1075)"

text \<open>
  \<open>k64f_within_half_ulp x n d\<close>: the finite \<open>x\<close> differs from the quotient \<open>n / d\<close> by
  at most half a unit of its last place, \<open>|x - n / d| \<le> 2 ^ (exponent - 1)\<close>, written
  without fractions. The result of an IEEE-754 division, the number nearest to the
  quotient, is within this distance of it.
\<close>

definition k64f_within_half_ulp :: "k64f \<Rightarrow> int \<Rightarrow> nat \<Rightarrow> bool" where
  "k64f_within_half_ulp x n d \<longleftrightarrow>
     k64f_biased_exponent x \<noteq> 2047 \<and>
     (let s = (if k64f_sign x then - 1 else 1);
          m = int (k64f_significand x);
          e = k64f_exponent x
      in if 0 \<le> e then 2 * \<bar>s * m * 2 ^ nat e * int d - n\<bar> \<le> 2 ^ nat e * int d
         else 2 * \<bar>s * m * int d - n * 2 ^ nat (- e)\<bar> \<le> int d)"

subsection \<open>The \<^verbatim>\<open>printf\<close> conversions the program uses\<close>

fun decimal :: "nat \<Rightarrow> string" where
  "decimal n =
     (if n < 10 then [char_of (48 + n)]
      else decimal (n div 10) @ [char_of (48 + n mod 10)])"

declare decimal.simps [simp del]

definition pad_left :: "char \<Rightarrow> nat \<Rightarrow> string \<Rightarrow> string" where
  "pad_left c w s = replicate (w - length s) c @ s"

text \<open>
  \<^verbatim>\<open>%04d\<close>, \<^verbatim>\<open>%02d\<close> and \<^verbatim>\<open>%04ld\<close>: a signed decimal, filled with zeros after the sign up
  to the field width.
\<close>

definition printf_0d :: "nat \<Rightarrow> int \<Rightarrow> string" where
  "printf_0d w v =
     (if v < 0 then CHR ''-'' # pad_left (CHR ''0'') (w - 1) (decimal (nat (- v)))
      else pad_left (CHR ''0'') w (decimal (nat v)))"

text \<open>
  \<^verbatim>\<open>%4.0u\<close>: an unsigned decimal of precision 0 in a field of four characters, filled
  with blanks on the left. With precision 0 the value 0 has no digits at all.
\<close>

definition printf_4_0u :: "nat \<Rightarrow> string" where
  "printf_4_0u v = pad_left (CHR '' '') 4 (if v = 0 then [] else decimal v)"

text \<open>
  \<^verbatim>\<open>%.2f\<close>: the number rounded to two decimals. \<open>hundredths x\<close> is the integer nearest
  to \<open>100 * |x|\<close> for the exact value of a finite \<open>x\<close> (a tie going to the even one, the
  IEEE rule that current C libraries follow); infinities and NaNs print as words.
\<close>

definition hundredths :: "k64f \<Rightarrow> nat" where
  "hundredths x =
     (let m = k64f_significand x; e = k64f_exponent x
      in if 0 \<le> e then 100 * m * 2 ^ nat e else round_half_even (100 * m) (2 ^ nat (- e)))"

definition printf_2f :: "k64f \<Rightarrow> string" where
  "printf_2f x =
     (if k64f_sign x then ''-'' else []) @
     (if k64f_biased_exponent x = 2047
      then (if k64f_fraction x = 0 then ''inf'' else ''nan'')
      else decimal (hundredths x div 100) @ ''.'' @
           pad_left (CHR ''0'') 2 (decimal (hundredths x mod 100)))"

section \<open>Data\<close>

subsection \<open>The context shared by \<^verbatim>\<open>main\<close> and the callback\<close>

text \<open>
  \<^verbatim>\<open>typedef struct { k32u count; k64u timeStamp; k64f frameRate; k64f exposureTime;
  FILE * measFilePointer; } DataContext;\<close>

  The stream \<open>measFilePointer\<close> is held as the characters handed to it so far. \<open>main\<close>
  opens it with \<^verbatim>\<open>"w"\<close>, as a text stream; what such a stream writes to its file is
  \<open>text_mode\<close> of these characters, see below.
\<close>

record DataContext =
  count :: k32u
  timeStamp :: k64u
  frameRate :: k64f
  exposureTime :: k64f
  measFilePointer :: string

subsection \<open>Messages of the SDK\<close>

text \<open>
  The SDK's handles are opaque to the program, which reads them through accessor
  functions only. A message is modelled by what those accessors return:
  \<^item> a stamp message by its stamps (\<^verbatim>\<open>GoStampMsg_Count\<close>, \<^verbatim>\<open>GoStampMsg_At\<close>), of which the
    program reads the field \<^verbatim>\<open>timestamp\<close>;
  \<^item> a surface message by \<^verbatim>\<open>GoSurfaceMsg_Width\<close>, \<^verbatim>\<open>_Length\<close>, the three resolutions
    (unsigned, in nanometres), the three offsets (signed, in micrometres) and its rows of
    samples (\<^verbatim>\<open>GoSurfaceMsg_RowAt\<close>);
  \<^item> a measurement message by \<^verbatim>\<open>GoMeasurementMsg_Id\<close> and its measurements
    (\<^verbatim>\<open>GoMeasurementMsg_Count\<close>, \<^verbatim>\<open>GoMeasurementMsg_At\<close>), of which the program reads the
    field \<^verbatim>\<open>value\<close>;
  \<^item> a message of any other type, for which the \<^verbatim>\<open>switch\<close> has no case.

  The widths are those of the SDK's declarations: \<^verbatim>\<open>k64u\<close> for the time of a stamp,
  \<^verbatim>\<open>k32u\<close> for width, length and resolutions, \<^verbatim>\<open>k32s\<close> for the offsets, \<^verbatim>\<open>k16s\<close> for a
  sample, \<^verbatim>\<open>k16u\<close> for the identifier and \<^verbatim>\<open>k64f\<close> for the value of a measurement.
\<close>

record GoStamp =
  timestamp :: k64u

record GoMeasurementData =
  m_value :: k64f

record GoSurfaceMsg =
  Width :: k32u
  Length :: k32u
  XResolution :: k32u
  YResolution :: k32u
  ZResolution :: k32u
  XOffset :: k32s
  YOffset :: k32s
  ZOffset :: k32s
  Rows :: "k16s list list"

datatype GoDataMsg =
    GO_DATA_MESSAGE_TYPE_STAMP "GoStamp list"
  | GO_DATA_MESSAGE_TYPE_SURFACE GoSurfaceMsg
  | GO_DATA_MESSAGE_TYPE_MEASUREMENT k16u "GoMeasurementData list"
  | GO_DATA_MESSAGE_TYPE_OTHER

definition GoSurfaceMsg_RowAt :: "GoSurfaceMsg \<Rightarrow> nat \<Rightarrow> k16s list" where
  "GoSurfaceMsg_RowAt surfaceMsg rowIdx = Rows surfaceMsg ! rowIdx"

text \<open>
  A surface message of the SDK holds \<open>Length\<close> rows of \<open>Width\<close> samples each. The
  program relies on it: it reads \<open>Width\<close> samples from every row below \<open>Length\<close>.
\<close>

definition wf_surface :: "GoSurfaceMsg \<Rightarrow> bool" where
  "wf_surface surfaceMsg \<longleftrightarrow>
     length (Rows surfaceMsg) = unat (Length surfaceMsg) \<and>
     list_all (\<lambda>data. length data = unat (Width surfaceMsg)) (Rows surfaceMsg)"

subsection \<open>The operating system\<close>

text \<open>
  The callback asks the system for the time and for a file. What the system answers is
  an input of the model, one answer per message of the data set:
  \<^item> \<open>SystemTime\<close>, what \<^verbatim>\<open>GetSystemTime\<close> stores (the fields the program prints);
  \<^item> \<open>fopen_ok\<close>, whether \<^verbatim>\<open>fopen(filename, "wb")\<close> returns a stream;
  \<^item> \<open>fwrite_cap k\<close>, how many bytes the stream takes at the \<open>k\<close>-th call of \<^verbatim>\<open>fwrite\<close>
    on it, counted from 0: the call hands over that many bytes of its buffer, or all of
    them when it asks for no more;
  \<^item> \<open>fclose_cap\<close>, how many of the bytes that the stream has taken, counted from the
    first, have reached the file when \<^verbatim>\<open>fclose\<close> returns.

  The program does not call \<^verbatim>\<open>setvbuf\<close>, so the stream is buffered: the bytes that a call
  of \<^verbatim>\<open>fwrite\<close> hands over reach the file when the buffer is written out, at the latest
  by \<^verbatim>\<open>fclose\<close>. A stream whose calls of \<^verbatim>\<open>fwrite\<close> have all returned 1 can
  still leave a file that lacks the bytes written out last.
\<close>

record SYSTEMTIME =
  wYear :: WORD
  wMonth :: WORD
  wDay :: WORD
  wHour :: WORD
  wMinute :: WORD
  wSecond :: WORD

record os_response =
  SystemTime :: SYSTEMTIME
  fopen_ok :: bool
  fwrite_cap :: "nat \<Rightarrow> nat"
  fclose_cap :: nat

text \<open>
  The files written so far, oldest first, each with the name it was opened under and the
  bytes it holds after \<^verbatim>\<open>fclose\<close> has returned. Opening with \<^verbatim>\<open>"wb"\<close> replaces a
  file of the same name, so the file seen under a name is the last one written under it.
\<close>

type_synonym files = "(string \<times> byte list) list"

definition visible :: "files \<Rightarrow> string \<Rightarrow> byte list option" where
  "visible fs name = map_of (rev fs) name"

section \<open>The callback \<^verbatim>\<open>onData\<close>\<close>

text \<open>
  The callback changes the context, writes surface files and appends to the log of
  measurements. These effects are the result of the model. What the callback prints on
  the console (\<^verbatim>\<open>printf\<close>) is left out, and with it the two numbers \<open>widthMm\<close> and
  \<open>lengthMm\<close> that are computed only to be printed.
\<close>

subsection \<open>Writing to a stream\<close>

text \<open>
  \<^verbatim>\<open>fwrite(ptr, size, 1, stream)\<close>: one item of \<open>sz\<close> bytes read at \<open>ptr\<close>. The stream
  takes \<open>cap\<close> bytes. The result is the number of items handed over in full, 1 or 0 (0
  also for an item of no bytes), and the stream with the bytes it has taken. A stream
  is the list of the bytes it has taken so far, in its buffer or in the file.
\<close>

definition fwrite :: "byte list \<Rightarrow> nat \<Rightarrow> nat \<Rightarrow> byte list \<Rightarrow> nat \<times> byte list" where
  "fwrite ptr sz cap stream =
     (if sz \<le> cap then (if sz = 0 then 0 else 1, stream @ take sz ptr)
      else (0, stream @ take cap ptr))"

text \<open>
  \<^verbatim>\<open>fclose(stream)\<close> writes out what is left in the buffer and closes the file. The
  first \<open>cap\<close> bytes of the stream have reached the file by then. The result is 0 when
  these are all of them and \<^verbatim>\<open>EOF\<close> otherwise, and the bytes of the file.
\<close>

definition EOF :: int where
  "EOF = - 1"

definition fclose :: "nat \<Rightarrow> byte list \<Rightarrow> int \<times> byte list" where
  "fclose cap stream = (if length stream \<le> cap then 0 else EOF, take cap stream)"

text \<open>
  Calls of \<^verbatim>\<open>fwrite\<close> on one stream, one after the other, each given as its buffer and
  its size; \<open>k\<close> numbers the calls. The results of the calls are collected.
\<close>

fun fwrite_seq ::
  "(byte list \<times> nat) list \<Rightarrow> (nat \<Rightarrow> nat) \<Rightarrow> nat \<Rightarrow> byte list \<Rightarrow> nat list \<times> byte list"
where
  "fwrite_seq [] cap k stream = ([], stream)"
| "fwrite_seq ((ptr, sz) # calls) cap k stream =
     (let (fwriteStatus, stream') = fwrite ptr sz (cap k) stream;
          (statuses, stream'') = fwrite_seq calls cap (Suc k) stream'
      in (fwriteStatus # statuses, stream''))"

subsection \<open>The surface file\<close>

definition ROOTFOLDER :: string where
  "ROOTFOLDER = ''D:'' @ [CHR 0x5C] @ ''GocatorDataOutput'' @ [CHR 0x5C]"

definition DATAFILENAMESUFFIX :: string where
  "DATAFILENAMESUFFIX = ''GocatorSurface.bin''"

definition HEADERTEXT :: string where
  "HEADERTEXT = ''MHSKJELV VER0001''"

text \<open>
  \<^verbatim>\<open>snprintf(filename, sizeof filename, "%s%04d-%02d-%02d_%02d%02d%02d_%04ld_%s", ROOTFOLDER,
  str_t.wYear, ..., str_t.wSecond, context->count, DATAFILENAMESUFFIX)\<close> into a buffer of
  1024 characters. \<^verbatim>\<open>%04ld\<close> reads the counter as a \<^verbatim>\<open>long\<close>, which has 32 bits on
  Windows.
\<close>

definition surface_filename :: "SYSTEMTIME \<Rightarrow> k32u \<Rightarrow> string" where
  "surface_filename str_t cnt =
     take 1023
       (ROOTFOLDER @
        printf_0d 4 (uint (wYear str_t)) @ ''-'' @
        printf_0d 2 (uint (wMonth str_t)) @ ''-'' @
        printf_0d 2 (uint (wDay str_t)) @ ''_'' @
        printf_0d 2 (uint (wHour str_t)) @
        printf_0d 2 (uint (wMinute str_t)) @
        printf_0d 2 (uint (wSecond str_t)) @ ''_'' @
        printf_0d 4 (sint cnt) @ ''_'' @
        DATAFILENAMESUFFIX)"

text \<open>
  The twelve calls of \<^verbatim>\<open>fwrite\<close> that write the header, in the order of the source. The
  string literal \<^verbatim>\<open>HEADERTEXT\<close> is written without its terminating zero
  (\<^verbatim>\<open>sizeof(HEADERTEXT)-1\<close>); \<open>ZOffset\<close> and \<open>ZResolution\<close> are written with
  \<^verbatim>\<open>sizeof(XOffset)\<close>, which is the size of any \<^verbatim>\<open>double\<close>.
\<close>

definition header_fwrites :: "DataContext \<Rightarrow> GoSurfaceMsg \<Rightarrow> (byte list \<times> nat) list" where
  "header_fwrites context surfaceMsg =
     (let surfaceWidth = Width surfaceMsg;
          surfaceLength = Length surfaceMsg;
          XResolution' = NM_TO_MM (uint (XResolution surfaceMsg));
          YResolution' = NM_TO_MM (uint (YResolution surfaceMsg));
          ZResolution' = NM_TO_MM (uint (ZResolution surfaceMsg));
          XOffset' = UM_TO_MM (sint (XOffset surfaceMsg));
          YOffset' = UM_TO_MM (sint (YOffset surfaceMsg));
          ZOffset' = UM_TO_MM (sint (ZOffset surfaceMsg))
      in [(bytes_chars HEADERTEXT @ [0], length HEADERTEXT + 1 - 1),
          (bytes_k64u (timeStamp context), 8),
          (bytes_k32u surfaceWidth, 4),
          (bytes_k32u surfaceLength, 4),
          (bytes_k64f XOffset', 8),
          (bytes_k64f XResolution', 8),
          (bytes_k64f YOffset', 8),
          (bytes_k64f YResolution', 8),
          (bytes_k64f ZOffset', 8),
          (bytes_k64f ZResolution', 8),
          (bytes_k64f (frameRate context), 8),
          (bytes_k64f (exposureTime context), 8)])"

text \<open>
  The loop over the rows: for every \<open>rowIdx\<close> below \<^verbatim>\<open>GoSurfaceMsg_Length\<close> one call
  \<^verbatim>\<open>fwrite(data, surfaceWidth * sizeof(k16s), 1, fptr)\<close> on the row's buffer. The loop
  prints a warning when a call does not return 1, and goes on.
\<close>

definition row_fwrites :: "GoSurfaceMsg \<Rightarrow> (byte list \<times> nat) list" where
  "row_fwrites surfaceMsg =
     map (\<lambda>rowIdx. (bytes_row (GoSurfaceMsg_RowAt surfaceMsg rowIdx), unat (Width surfaceMsg) * 2))
       [0..<unat (Length surfaceMsg)]"

definition surface_stream :: "DataContext \<Rightarrow> os_response \<Rightarrow> GoSurfaceMsg \<Rightarrow> nat list \<times> byte list" where
  "surface_stream context os surfaceMsg =
     fwrite_seq (header_fwrites context surfaceMsg @ row_fwrites surfaceMsg) (fwrite_cap os) 0 []"

subsection \<open>The cases of the \<^verbatim>\<open>switch\<close>\<close>

text \<open>\<^verbatim>\<open>case GO_DATA_MESSAGE_TYPE_STAMP\<close>: every stamp's time goes into the context.\<close>

fun stamp_loop :: "DataContext \<Rightarrow> GoStamp list \<Rightarrow> DataContext" where
  "stamp_loop context [] = context"
| "stamp_loop context (stamp # stamps) =
     stamp_loop (context\<lparr>timeStamp := timestamp stamp\<rparr>) stamps"

text \<open>
  \<^verbatim>\<open>case GO_DATA_MESSAGE_TYPE_SURFACE\<close>. The counter goes up, the file name is made from
  the time and the counter, the file is opened. If that fails the callback is left at
  once, by a \<^verbatim>\<open>return\<close> without a value: \<open>Return\<close>. Otherwise header and rows are
  written, the file is closed and the \<^verbatim>\<open>switch\<close> is left: \<open>Break\<close>. The results of the
  twelve calls of \<^verbatim>\<open>fwrite\<close> for the header and the result of \<^verbatim>\<open>fclose\<close> are not
  looked at; a row whose call does not return 1 gives a warning on the console.
\<close>

datatype handler_exit = Break | Return

definition surface_case ::
  "DataContext \<Rightarrow> files \<Rightarrow> os_response \<Rightarrow> GoSurfaceMsg \<Rightarrow> handler_exit \<times> DataContext \<times> files"
where
  "surface_case context fs os surfaceMsg =
     (let context' = context\<lparr>count := count context + 1\<rparr>;
          filename = surface_filename (SystemTime os) (count context')
      in if \<not> fopen_ok os then (Return, context', fs)
         else let (statuses, fptr) = surface_stream context' os surfaceMsg;
                  (closed, bytes) = fclose (fclose_cap os) fptr
              in (Break, context', fs @ [(filename, bytes)]))"

text \<open>
  \<^verbatim>\<open>case GO_DATA_MESSAGE_TYPE_MEASUREMENT\<close>: one line per measurement,
  \<^verbatim>\<open>fprintf(context->measFilePointer, "%4.0u;%4.0u; %.2f\r\n", context->count,
  GoMeasurementMsg_Id(measurementMsg), measurementData->value)\<close>.
\<close>

definition measurement_line :: "k32u \<Rightarrow> k16u \<Rightarrow> k64f \<Rightarrow> string" where
  "measurement_line cnt msgId v =
     printf_4_0u (unat cnt) @ '';'' @ printf_4_0u (unat msgId) @ ''; '' @ printf_2f v @
     [CHR 0x0D, CHR 0x0A]"

fun measurement_loop :: "DataContext \<Rightarrow> k16u \<Rightarrow> GoMeasurementData list \<Rightarrow> DataContext" where
  "measurement_loop context msgId [] = context"
| "measurement_loop context msgId (measurementData # rest) =
     measurement_loop
       (context\<lparr>measFilePointer :=
          measFilePointer context @
          measurement_line (count context) msgId (m_value measurementData)\<rparr>)
       msgId rest"



subsection \<open>The loop over the data set\<close>

text \<open>
  The callback returns \<^verbatim>\<open>kOK\<close> at its end, after \<^verbatim>\<open>GoDestroy(dataset)\<close>. The
  \<^verbatim>\<open>return\<close> of the surface case gives no status: \<open>None\<close>. \<open>os i\<close> is what the
  operating system answers while message \<open>i\<close> is handled.
\<close>

datatype kStatus = kOK

fun dataset_loop ::
  "DataContext \<Rightarrow> files \<Rightarrow> (nat \<Rightarrow> os_response) \<Rightarrow> nat \<Rightarrow> GoDataMsg list \<Rightarrow>
   kStatus option \<times> DataContext \<times> files"
where
  "dataset_loop context fs os i [] = (Some kOK, context, fs)"
| "dataset_loop context fs os i (dataObj # rest) =
     (case dataObj of
        GO_DATA_MESSAGE_TYPE_STAMP stampMsg \<Rightarrow>
          dataset_loop (stamp_loop context stampMsg) fs os (Suc i) rest
      | GO_DATA_MESSAGE_TYPE_SURFACE surfaceMsg \<Rightarrow>
          (case surface_case context fs (os i) surfaceMsg of
             (Return, context', fs') \<Rightarrow> (None, context', fs')
           | (Break, context', fs') \<Rightarrow> dataset_loop context' fs' os (Suc i) rest)
      | GO_DATA_MESSAGE_TYPE_MEASUREMENT msgId measurementMsg \<Rightarrow>
          dataset_loop (measurement_loop context msgId measurementMsg) fs os (Suc i) rest
      | GO_DATA_MESSAGE_TYPE_OTHER \<Rightarrow>
          dataset_loop context fs os (Suc i) rest)"

definition onData ::
  "DataContext \<Rightarrow> files \<Rightarrow> (nat \<Rightarrow> os_response) \<Rightarrow> GoDataMsg list \<Rightarrow>
   kStatus option \<times> DataContext \<times> files"
where
  "onData context fs os dataset = dataset_loop context fs os 0 dataset"

section \<open>The session\<close>

text \<open>
  \<^verbatim>\<open>main\<close> declares \<^verbatim>\<open>DataContext contextPointer;\<close> without an initialiser and, before it
  starts the sensor, assigns \<open>count\<close> (\<^verbatim>\<open>// Reset counter\<close>), \<open>frameRate\<close>,
  \<open>exposureTime\<close> and \<open>measFilePointer\<close>, to which it prints the heading of the log. The
  argument \<open>contextPointer\<close> is the content of the variable before that, whatever the
  stack held.
\<close>

definition main_context :: "DataContext \<Rightarrow> k64f \<Rightarrow> k64f \<Rightarrow> DataContext" where
  "main_context contextPointer GoSetup_FrameRate GoSetup_Exposure =
     contextPointer
       \<lparr>count := 0,
        frameRate := GoSetup_FrameRate,
        exposureTime := GoSetup_Exposure,
        measFilePointer :=
          ''Surface number; Measurement ID; Measurement value'' @ [CHR 0x0D, CHR 0x0A]\<rparr>"

text \<open>
  Between \<^verbatim>\<open>GoSystem_Start\<close> and \<^verbatim>\<open>GoSystem_Stop\<close> the SDK calls \<open>onData\<close> once for
  every data set the sensor sends, one call after the other, on the same context.
\<close>

fun callbacks ::
  "DataContext \<Rightarrow> files \<Rightarrow> ((nat \<Rightarrow> os_response) \<times> GoDataMsg list) list \<Rightarrow> DataContext \<times> files"
where
  "callbacks context fs [] = (context, fs)"
| "callbacks context fs ((os, dataset) # later) =
     (case onData context fs os dataset of
        (status, context', fs') \<Rightarrow> callbacks context' fs' later)"

section \<open>Reading a surface file\<close>

text \<open>
  The layout of the output file as the head of the source file gives it:
  \<^verbatim>\<open>char[16] headerText, uint64 timeStamp, uint32 surfaceWidth, uint32 surfaceLength,
  float64 xOffset, xResolution, yOffset, yResolution, zOffset, zResolution, frameRate,
  exposureTime, uint16 surface (2*surfaceWidth*surfaceLength bytes)\<close>, the surface row
  by row. \<open>read_surface_file\<close> takes a file apart by these offsets.
\<close>

record surface_file =
  file_headerText :: "byte list"
  file_timeStamp :: k64u
  file_surfaceWidth :: k32u
  file_surfaceLength :: k32u
  file_xOffset :: k64f
  file_xResolution :: k64f
  file_yOffset :: k64f
  file_yResolution :: k64f
  file_zOffset :: k64f
  file_zResolution :: k64f
  file_frameRate :: k64f
  file_exposureTime :: k64f
  file_surface :: "k16s list"

definition field :: "byte list \<Rightarrow> nat \<Rightarrow> nat \<Rightarrow> byte list" where
  "field bs off n = take n (drop off bs)"

fun samples :: "byte list \<Rightarrow> k16s list" where
  "samples (b0 # b1 # bs) = of_nat (le_value [b0, b1]) # samples bs"
| "samples bs = []"

definition read_surface_file :: "byte list \<Rightarrow> surface_file" where
  "read_surface_file bs =
     \<lparr>file_headerText = field bs 0 16,
      file_timeStamp = of_nat (le_value (field bs 16 8)),
      file_surfaceWidth = of_nat (le_value (field bs 24 4)),
      file_surfaceLength = of_nat (le_value (field bs 28 4)),
      file_xOffset = of_nat (le_value (field bs 32 8)),
      file_xResolution = of_nat (le_value (field bs 40 8)),
      file_yOffset = of_nat (le_value (field bs 48 8)),
      file_yResolution = of_nat (le_value (field bs 56 8)),
      file_zOffset = of_nat (le_value (field bs 64 8)),
      file_zResolution = of_nat (le_value (field bs 72 8)),
      file_frameRate = of_nat (le_value (field bs 80 8)),
      file_exposureTime = of_nat (le_value (field bs 88 8)),
      file_surface = samples (drop 96 bs)\<rparr>"

section \<open>Notions the properties are stated with\<close>

text \<open>
  The bytes that the file of a surface message holds after \<^verbatim>\<open>fclose\<close>, when
  \<^verbatim>\<open>fopen\<close> gave a stream.
\<close>

definition surface_file_bytes :: "DataContext \<Rightarrow> os_response \<Rightarrow> GoSurfaceMsg \<Rightarrow> byte list" where
  "surface_file_bytes context os surfaceMsg =
     snd (fclose (fclose_cap os) (snd (surface_stream context os surfaceMsg)))"

text \<open>
  A surface file is encoded successfully when no call of the C library on it has
  failed: \<^verbatim>\<open>fopen\<close> gave a stream, every call of \<^verbatim>\<open>fwrite\<close> on it returned 1, and
  \<^verbatim>\<open>fclose\<close> returned 0. Its header is written when \<^verbatim>\<open>fopen\<close> gave a stream, the
  twelve calls of \<^verbatim>\<open>fwrite\<close> for the header returned 1, and the 96 bytes that they
  handed over have reached the file.
\<close>

definition encoded_successfully :: "DataContext \<Rightarrow> os_response \<Rightarrow> GoSurfaceMsg \<Rightarrow> bool" where
  "encoded_successfully context os surfaceMsg \<longleftrightarrow>
     fopen_ok os \<and>
     list_all (\<lambda>fwriteStatus. fwriteStatus = 1) (fst (surface_stream context os surfaceMsg)) \<and>
     fst (fclose (fclose_cap os) (snd (surface_stream context os surfaceMsg))) = 0"

definition header_written :: "DataContext \<Rightarrow> os_response \<Rightarrow> GoSurfaceMsg \<Rightarrow> bool" where
  "header_written context os surfaceMsg \<longleftrightarrow>
     fopen_ok os \<and>
     list_all (\<lambda>fwriteStatus. fwriteStatus = 1)
       (take 12 (fst (surface_stream context os surfaceMsg))) \<and>
     96 \<le> fclose_cap os"

text \<open>The bytes of the twelve header items, each in full.\<close>

definition header_bytes :: "DataContext \<Rightarrow> GoSurfaceMsg \<Rightarrow> byte list" where
  "header_bytes context surfaceMsg =
     concat (map (\<lambda>(ptr, sz). take sz ptr) (header_fwrites context surfaceMsg))"

text \<open>
  The messages of a data set that the loop of \<open>onData\<close> gets to: all of them, or those
  up to the first surface message whose file cannot be opened.
\<close>

fun processed :: "(nat \<Rightarrow> os_response) \<Rightarrow> nat \<Rightarrow> GoDataMsg list \<Rightarrow> GoDataMsg list" where
  "processed os i [] = []"
| "processed os i (GO_DATA_MESSAGE_TYPE_SURFACE surfaceMsg # rest) =
     GO_DATA_MESSAGE_TYPE_SURFACE surfaceMsg #
     (if fopen_ok (os i) then processed os (Suc i) rest else [])"
| "processed os i (dataObj # rest) = dataObj # processed os (Suc i) rest"

fun surface_messages :: "GoDataMsg list \<Rightarrow> nat" where
  "surface_messages [] = 0"
| "surface_messages (GO_DATA_MESSAGE_TYPE_SURFACE surfaceMsg # rest) = Suc (surface_messages rest)"
| "surface_messages (dataObj # rest) = surface_messages rest"

fun stamp_records :: "GoDataMsg list \<Rightarrow> GoStamp list" where
  "stamp_records [] = []"
| "stamp_records (GO_DATA_MESSAGE_TYPE_STAMP stampMsg # rest) = stampMsg @ stamp_records rest"
| "stamp_records (dataObj # rest) = stamp_records rest"

fun measurement_lines :: "k32u \<Rightarrow> GoDataMsg list \<Rightarrow> string" where
  "measurement_lines cnt [] = []"
| "measurement_lines cnt (GO_DATA_MESSAGE_TYPE_SURFACE surfaceMsg # rest) =
     measurement_lines (cnt + 1) rest"
| "measurement_lines cnt (GO_DATA_MESSAGE_TYPE_MEASUREMENT msgId measurementMsg # rest) =
     concat (map (\<lambda>measurementData. measurement_line cnt msgId (m_value measurementData))
       measurementMsg) @
     measurement_lines cnt rest"
| "measurement_lines cnt (dataObj # rest) = measurement_lines cnt rest"

text \<open>
  The time stamp in force after the messages \<open>pre\<close>, when it was \<open>t\<close> before them: that of
  the last stamp among them, or \<open>t\<close> when they hold no stamp.
\<close>

definition stamp_in_force :: "k64u \<Rightarrow> GoDataMsg list \<Rightarrow> k64u" where
  "stamp_in_force t pre =
     (if stamp_records pre = [] then t else timestamp (last (stamp_records pre)))"

text \<open>
  The surface files of one call of the callback: one file for every surface message
  that the loop gets to and whose file can be opened, in the order of the messages. The
  file of the message at position \<open>i\<close> has the name made from the time at that message
  and the counter after the surface messages up to it, and the bytes that the stream of
  that message leaves in the file with the time stamp in force after the messages before
  \<open>i\<close>.
\<close>

definition surface_files :: "DataContext \<Rightarrow> (nat \<Rightarrow> os_response) \<Rightarrow> GoDataMsg list \<Rightarrow> files" where
  "surface_files context os dataset =
     (let reached = processed os 0 dataset
      in concat (map (\<lambda>i.
           case reached ! i of
             GO_DATA_MESSAGE_TYPE_SURFACE surfaceMsg \<Rightarrow>
               if fopen_ok (os i)
               then [(surface_filename (SystemTime (os i))
                        (count context + of_nat (surface_messages (take i reached)) + 1),
                      surface_file_bytes
                        (context\<lparr>timeStamp := stamp_in_force (timeStamp context) (take i reached)\<rparr>)
                        (os i) surfaceMsg)]
               else []
           | _ \<Rightarrow> [])
         [0..<length reached]))"

text \<open>The surface messages a whole session gets to, over all its calls of \<open>onData\<close>.\<close>

definition session_surfaces :: "((nat \<Rightarrow> os_response) \<times> GoDataMsg list) list \<Rightarrow> nat" where
  "session_surfaces calls =
     sum_list (map (\<lambda>(os, dataset). surface_messages (processed os 0 dataset)) calls)"

subsection \<open>Reading a line of the log\<close>

text \<open>
  A decimal numeral is read digit by digit, the most significant digit first. A numeral
  is well formed when it has at least one digit, only digits, and no leading zero other
  than the single digit of zero.
\<close>

definition is_digit :: "char \<Rightarrow> bool" where
  "is_digit c \<longleftrightarrow> (48 :: nat) \<le> of_char c \<and> of_char c \<le> (57 :: nat)"

definition digit_value :: "char \<Rightarrow> nat" where
  "digit_value c = of_char c - 48"

definition number_of :: "string \<Rightarrow> nat" where
  "number_of ds = foldl (\<lambda>n c. 10 * n + digit_value c) 0 ds"

definition is_numeral :: "string \<Rightarrow> bool" where
  "is_numeral ds \<longleftrightarrow>
     ds \<noteq> [] \<and> list_all is_digit ds \<and> (if length ds = 1 then True else hd ds \<noteq> CHR ''0'')"

text \<open>
  A field that shows the unsigned number \<open>n\<close> four characters wide: blanks followed by
  the numeral of \<open>n\<close>, four characters in all, or as many as the numeral has when it has
  more than four. The number 0 is shown by blanks alone, as \<^verbatim>\<open>%4.0u\<close> does.
\<close>

definition is_field_4 :: "nat \<Rightarrow> string \<Rightarrow> bool" where
  "is_field_4 n f \<longleftrightarrow>
     (let ds = dropWhile (\<lambda>c. c = CHR '' '') f
      in length f = max 4 (length ds) \<and>
         (if n = 0 then ds = [] else is_numeral ds \<and> number_of ds = n))"


text \<open>
  \<open>is_nearest_hundredth x h\<close>: \<open>h\<close> hundredths is a multiple of 0.01 nearest to the
  magnitude of the finite \<^verbatim>\<open>double\<close> \<open>x\<close>, \<open>|100 * |x| - h| \<le> 1 / 2\<close>, written without
  fractions.
\<close>

definition is_nearest_hundredth :: "k64f \<Rightarrow> nat \<Rightarrow> bool" where
  "is_nearest_hundredth x h \<longleftrightarrow>
     (let m = int (k64f_significand x); e = k64f_exponent x
      in if 0 \<le> e then 2 * \<bar>100 * m * 2 ^ nat e - int h\<bar> \<le> 1
         else 2 * \<bar>100 * m - int h * 2 ^ nat (- e)\<bar> \<le> 2 ^ nat (- e))"

text \<open>
  A text that shows the finite \<^verbatim>\<open>double\<close> \<open>x\<close> with two decimals: a minus sign exactly
  when the sign bit of \<open>x\<close> is set, the numeral of the integer part, a point and two
  digits, which together name a multiple of 0.01 nearest to \<open>x\<close>.
\<close>

definition is_fixed_2 :: "k64f \<Rightarrow> string \<Rightarrow> bool" where
  "is_fixed_2 x t \<longleftrightarrow>
     (let u = (if k64f_sign x then drop 1 t else t);
          ip = takeWhile is_digit u;
          fp = drop (length ip + 1) u
      in t = (if k64f_sign x then ''-'' else []) @ ip @ ''.'' @ fp \<and>
         is_numeral ip \<and> length fp = 2 \<and> list_all is_digit fp \<and>
         is_nearest_hundredth x (100 * number_of ip + number_of fp))"

subsection \<open>Sample inputs\<close>

text \<open>
  A surface of two rows of two samples, one of them the sensor's mark for a point
  without data; a system that opens and writes every file; one that cannot open the
  file; one whose stream takes a single byte of the first row; one whose stream takes
  every byte and whose file lacks the last three of them after \<^verbatim>\<open>fclose\<close>. The
  measured value is the \<^verbatim>\<open>double\<close> nearest to 3.14159, the frame rate is 5.0 and the
  exposure time 1000.0.
\<close>

definition sample_surface :: GoSurfaceMsg where
  "sample_surface =
     \<lparr>Width = 2, Length = 2,
      XResolution = 1000000, YResolution = 500000, ZResolution = 1,
      XOffset = 1000, YOffset = - 1000, ZOffset = 0,
      Rows = [[1, - 32768], [- 2, 3]]\<rparr>"

definition sample_time :: SYSTEMTIME where
  "sample_time = \<lparr>wYear = 2018, wMonth = 6, wDay = 1, wHour = 12, wMinute = 30, wSecond = 45\<rparr>"

definition os_fine :: os_response where
  "os_fine =
     \<lparr>SystemTime = sample_time, fopen_ok = True, fwrite_cap = (\<lambda>k. 4096), fclose_cap = 4096\<rparr>"

definition os_no_file :: os_response where
  "os_no_file =
     \<lparr>SystemTime = sample_time, fopen_ok = False, fwrite_cap = (\<lambda>k. 4096), fclose_cap = 4096\<rparr>"

definition os_short_write :: os_response where
  "os_short_write =
     \<lparr>SystemTime = sample_time, fopen_ok = True,
      fwrite_cap = (\<lambda>k. if k = 12 then 1 else 4096), fclose_cap = 4096\<rparr>"

definition os_short_flush :: os_response where
  "os_short_flush =
     \<lparr>SystemTime = sample_time, fopen_ok = True, fwrite_cap = (\<lambda>k. 4096), fclose_cap = 101\<rparr>"

definition sample_context :: DataContext where
  "sample_context =
     \<lparr>count = 2, timeStamp = 99, frameRate = 0x4014000000000000,
      exposureTime = 0x408F400000000000, measFilePointer = []\<rparr>"

definition sample_measurement :: GoMeasurementData where
  "sample_measurement = \<lparr>m_value = 0x400921F9F01B866E\<rparr>"

definition stack_garbage :: DataContext where
  "stack_garbage =
     \<lparr>count = 0xCCCCCCCC, timeStamp = 0xCCCCCCCCCCCCCCCC, frameRate = 0xCCCCCCCCCCCCCCCC,
      exposureTime = 0xCCCCCCCCCCCCCCCC, measFilePointer = []\<rparr>"

definition sample_dataset :: "GoDataMsg list" where
  "sample_dataset =
     [GO_DATA_MESSAGE_TYPE_STAMP [\<lparr>timestamp = 100\<rparr>],
      GO_DATA_MESSAGE_TYPE_SURFACE sample_surface,
      GO_DATA_MESSAGE_TYPE_MEASUREMENT 7 [sample_measurement]]"

text \<open>
  The context as \<^verbatim>\<open>main\<close> hands it to the SDK, when the stack held the pattern
  \<^verbatim>\<open>0xCC\<close> in every byte.
\<close>

definition armed_context :: DataContext where
  "armed_context = main_context stack_garbage 0x4014000000000000 0x408F400000000000"

text \<open>A data set with stamps before and after a surface.\<close>

definition stamped_dataset :: "GoDataMsg list" where
  "stamped_dataset =
     [GO_DATA_MESSAGE_TYPE_STAMP [\<lparr>timestamp = 1\<rparr>, \<lparr>timestamp = 2\<rparr>],
      GO_DATA_MESSAGE_TYPE_SURFACE sample_surface,
      GO_DATA_MESSAGE_TYPE_STAMP [\<lparr>timestamp = 3\<rparr>]]"

section \<open>Evaluation\<close>

text \<open>
  Equations that let the simplifier compute the functions above on numerals.
\<close>

lemma le_bytes_2: "le_bytes 2 v = [of_nat (v mod 256), of_nat (v div 256 mod 256)]"
  by (simp add: numeral_2_eq_2)

lemma replicate_unroll: "replicate n c = (if n = 0 then [] else c # replicate (n - 1) c)"
  by (cases n) simp_all

lemmas k64f_eval =
  NM_TO_MM_def UM_TO_MM_def k64f_of_ratio_def k64f_nearest_def scaled_quotient_def
  round_half_even_def bitlen_nat.simps Let_def

lemmas printf_eval =
  printf_4_0u_def printf_0d_def printf_2f_def hundredths_def k64f_sign_def
  k64f_biased_exponent_def k64f_fraction_def k64f_significand_def k64f_exponent_def
  round_half_even_def pad_left_def decimal.simps Let_def char_of_def replicate_unroll
  bit_0 bit_Suc_0_iff

section \<open>The conversions to millimetres\<close>

text \<open>
  The number of binary digits, and the rounding of a quotient of integers.
\<close>

lemma bitlen_nat_bounds:
  "0 < n \<Longrightarrow> 2 ^ (bitlen_nat n - 1) \<le> n \<and> n < 2 ^ bitlen_nat n"
proof (induction n rule: bitlen_nat.induct)
  case (1 n)
  show ?case
  proof (cases "n div 2 = 0")
    case True
    with "1.prems" have "n = 1" by (cases n) auto
    then show ?thesis by (simp add: bitlen_nat.simps)
  next
    case False
    then have h: "0 < n div 2" by simp
    from "1.prems" have n0: "n \<noteq> 0" by simp
    from "1.IH" [OF n0 h]
    have lo: "2 ^ (bitlen_nat (n div 2) - 1) \<le> n div 2"
      and hi: "n div 2 < 2 ^ bitlen_nat (n div 2)" by simp_all
    have pos: "0 < bitlen_nat (n div 2)"
      using h by (subst bitlen_nat.simps) simp
    have b: "bitlen_nat n = Suc (bitlen_nat (n div 2))"
      using n0 by (subst bitlen_nat.simps) simp
    have "(2::nat) ^ bitlen_nat (n div 2) = 2 * 2 ^ (bitlen_nat (n div 2) - 1)"
      using pos by (cases "bitlen_nat (n div 2)") simp_all
    with lo have "2 ^ bitlen_nat (n div 2) \<le> 2 * (n div 2)" by simp
    also have "\<dots> \<le> n" by simp
    finally have 1: "2 ^ (bitlen_nat n - 1) \<le> n" by (simp add: b)
    from hi have "n div 2 + 1 \<le> 2 ^ bitlen_nat (n div 2)" by simp
    then have "2 * (n div 2) + 2 \<le> 2 * 2 ^ bitlen_nat (n div 2)" by simp
    moreover have "n \<le> 2 * (n div 2) + 1" by presburger
    ultimately have 2: "n < 2 ^ bitlen_nat n" by (simp add: b)
    from 1 2 show ?thesis by simp
  qed
qed

lemma bitlen_nat_le:
  assumes "0 < n" and "n \<le> 2 ^ 32"
  shows "1 \<le> bitlen_nat n" and "bitlen_nat n \<le> 33"
proof -
  show "1 \<le> bitlen_nat n"
    using assms(1) by (subst bitlen_nat.simps) simp
  from bitlen_nat_bounds [OF assms(1)] assms(2)
  have "(2::nat) ^ (bitlen_nat n - 1) \<le> 2 ^ 32" by simp
  then have "bitlen_nat n - 1 \<le> 32"
    by (rule power_le_imp_le_exp [rotated]) simp
  then show "bitlen_nat n \<le> 33" by simp
qed

lemma round_half_even_bounds:
  assumes "0 < b"
  shows "a div b \<le> round_half_even a b" and "round_half_even a b \<le> a div b + 1"
    and "2 * \<bar>int (round_half_even a b) * int b - int a\<bar> \<le> int b"
proof -
  let ?q = "a div b" and ?r = "a mod b"
  have a: "int a = int ?q * int b + int ?r"
    by (metis div_mult_mod_eq of_nat_add of_nat_mult)
  have r: "?r < b" using assms by simp
  show "a div b \<le> round_half_even a b" and "round_half_even a b \<le> a div b + 1"
    by (simp_all add: round_half_even_def Let_def)
  show "2 * \<bar>int (round_half_even a b) * int b - int a\<bar> \<le> int b"
  proof (cases "b < 2 * ?r \<or> (2 * ?r = b \<and> odd ?q)")
    case True
    then have m: "round_half_even a b = ?q + 1" by (simp add: round_half_even_def Let_def)
    have "int (?q + 1) * int b - int a = int b - int ?r"
      unfolding a by (simp add: algebra_simps)
    moreover from True have "b \<le> 2 * ?r" by auto
    ultimately show ?thesis unfolding m using r by simp
  next
    case False
    then have m: "round_half_even a b = ?q" by (simp add: round_half_even_def Let_def)
    have "int ?q * int b - int a = - int ?r"
      unfolding a by simp
    moreover from False have "2 * ?r \<le> b" by auto
    ultimately show ?thesis unfolding m by simp
  qed
qed

text \<open>
  \<open>k64f_nearest\<close> gives a significand between \<open>2 ^ 52\<close> and \<open>2 ^ 53\<close> that is the
  quotient, scaled by a power of two, rounded to an integer.
\<close>

lemma k64f_nearest_parts:
  assumes n: "0 < n" and d: "0 < d"
    and up: "bitlen_nat n + 3 \<le> bitlen_nat d + 53"
    and lo: "bitlen_nat d \<le> bitlen_nat n + 1000"
  shows "\<exists>k m. k64f_nearest n d = (1074 - k) * 2 ^ 52 + m \<and> 2 \<le> k \<and> k \<le> 1074 \<and>
           2 ^ 52 \<le> m \<and> m \<le> 2 ^ 53 \<and>
           2 * \<bar>int m * int d - int n * 2 ^ k\<bar> \<le> int d"
proof -
  define la ld where "la = bitlen_nat n" and "ld = bitlen_nat d"
  define k0 where "k0 = ld + 53 - la"
  from up have k0: "3 \<le> k0" and k0': "k0 + la = ld + 53"
    by (simp_all add: k0_def la_def ld_def)
  from lo have k0u: "k0 \<le> 1053"
    by (simp add: k0_def la_def ld_def)
  have e0: "int (bitlen_nat n) - int (bitlen_nat d) - 53 = - int k0"
    using k0' by (simp add: la_def ld_def)
  from bitlen_nat_bounds [OF n] have nlo: "2 ^ (la - 1) \<le> n" and nhi: "n < 2 ^ la"
    by (simp_all add: la_def)
  from bitlen_nat_bounds [OF d] have dlo: "2 ^ (ld - 1) \<le> d" and dhi: "d < 2 ^ ld"
    by (simp_all add: ld_def)
  have lapos: "0 < la"
    using n unfolding la_def by (subst bitlen_nat.simps) simp
  have ldpos: "0 < ld"
    using d unfolding ld_def by (subst bitlen_nat.simps) simp
  \<comment> \<open>the quotient scaled by \<open>2 ^ k0\<close> lies between \<open>2 ^ 52\<close> and \<open>2 ^ 54\<close>\<close>
  have ex1: "52 + ld = (la - 1) + k0"
    using k0' lapos by simp
  have "(2::nat) ^ 52 * 2 ^ ld = 2 ^ (52 + ld)"
    by (simp only: power_add)
  also have "\<dots> = 2 ^ (la - 1) * 2 ^ k0"
    by (simp only: ex1 power_add)
  also have "\<dots> \<le> n * 2 ^ k0"
    using nlo by simp
  finally have "2 ^ 52 * d \<le> n * 2 ^ k0"
    using dhi by (meson less_imp_le_nat mult_le_mono2 order_trans)
  then have q0lo: "2 ^ 52 \<le> n * 2 ^ k0 div d"
    using d by (simp add: less_eq_div_iff_mult_less_eq)
  have ex2: "la + k0 = 54 + (ld - 1)"
    using k0' ldpos by simp
  have "n * 2 ^ k0 < 2 ^ la * 2 ^ k0"
    using nhi by simp
  also have "\<dots> = 2 ^ (la + k0)"
    by (simp only: power_add)
  also have "\<dots> = 2 ^ 54 * 2 ^ (ld - 1)"
    by (simp only: ex2 power_add)
  also have "\<dots> \<le> 2 ^ 54 * d"
    using dlo by simp
  finally have a0hi: "n * 2 ^ k0 < 2 ^ 54 * d" .
  have sq0: "scaled_quotient n d (- int k0) = (n * 2 ^ k0, d)"
    using k0 by (simp add: scaled_quotient_def)
  have step: "k64f_nearest n d =
      (let e = (if 2 ^ 53 \<le> n * 2 ^ k0 div d then - int k0 + 1 else - int k0);
           (a, b) = scaled_quotient n d e;
           m = round_half_even a b
       in nat (e + 1074) * 2 ^ 52 + m)"
    unfolding k64f_nearest_def e0 by (simp only: Let_def sq0 prod.case)
  show ?thesis
  proof (cases "2 ^ 53 \<le> n * 2 ^ k0 div d")
    case False
    let ?m = "round_half_even (n * 2 ^ k0) d"
    have nk: "nat (- int k0 + 1074) = 1074 - k0"
      using k0u by simp
    have val: "k64f_nearest n d = (1074 - k0) * 2 ^ 52 + ?m"
      unfolding step by (simp only: False if_False Let_def sq0 prod.case nk)
    have "2 ^ 52 \<le> ?m"
      using round_half_even_bounds(1) [OF d, of "n * 2 ^ k0"] q0lo by simp
    moreover have "?m \<le> 2 ^ 53"
      using round_half_even_bounds(2) [OF d, of "n * 2 ^ k0"] False by simp
    moreover have "2 * \<bar>int ?m * int d - int n * 2 ^ k0\<bar> \<le> int d"
      using round_half_even_bounds(3) [OF d, of "n * 2 ^ k0"] by simp
    ultimately show ?thesis
      using val k0 k0u by (intro exI [of _ k0] exI [of _ ?m]) simp
  next
    case True
    define k where "k = k0 - 1"
    have k: "2 \<le> k" "k \<le> 1074" "k0 = Suc k"
      using k0 k0u by (simp_all add: k_def)
    let ?m = "round_half_even (n * 2 ^ k) d"
    have ek: "- int k0 + 1 = - int k"
      using k by simp
    have sq: "scaled_quotient n d (- int k) = (n * 2 ^ k, d)"
      using k by (simp add: scaled_quotient_def)
    have nk: "nat (- int k + 1074) = 1074 - k"
      using k by simp
    have val: "k64f_nearest n d = (1074 - k) * 2 ^ 52 + ?m"
      unfolding step by (simp only: True if_True Let_def ek sq prod.case nk)
    have dbl: "n * 2 ^ k0 = 2 * (n * 2 ^ k)"
      by (simp add: k)
    from True have "2 ^ 53 * d \<le> n * 2 ^ k0"
      using d by (simp add: less_eq_div_iff_mult_less_eq)
    then have "2 ^ 52 * d \<le> n * 2 ^ k"
      unfolding dbl by simp
    then have qlo: "2 ^ 52 \<le> n * 2 ^ k div d"
      using d by (simp add: less_eq_div_iff_mult_less_eq)
    from a0hi have "n * 2 ^ k < 2 ^ 53 * d"
      unfolding dbl by simp
    then have qhi: "n * 2 ^ k div d < 2 ^ 53"
      using d by (simp add: div_less_iff_less_mult)
    have "2 ^ 52 \<le> ?m"
      using round_half_even_bounds(1) [OF d, of "n * 2 ^ k"] qlo by simp
    moreover have "?m \<le> 2 ^ 53"
      using round_half_even_bounds(2) [OF d, of "n * 2 ^ k"] qhi by simp
    moreover have "2 * \<bar>int ?m * int d - int n * 2 ^ k\<bar> \<le> int d"
      using round_half_even_bounds(3) [OF d, of "n * 2 ^ k"] by simp
    ultimately show ?thesis
      using val k by (intro exI [of _ k] exI [of _ ?m]) simp
  qed
qed

text \<open>
  Taking the bit pattern apart again.
\<close>

lemma k64f_decode:
  fixes E m :: nat and neg :: bool
  assumes E: "E \<le> 2044" and mlo: "2 ^ 52 \<le> m" and mhi: "m \<le> 2 ^ 53"
  defines "x \<equiv> (of_nat ((if neg then 2 ^ 63 else 0) + (E * 2 ^ 52 + m)) :: k64f)"
  shows "k64f_sign x = neg"
    and "k64f_biased_exponent x = (if m < 2 ^ 53 then E + 1 else E + 2)"
    and "k64f_fraction x = (if m < 2 ^ 53 then m - 2 ^ 52 else 0)"
proof -
  define f where "f = m - 2 ^ 52"
  define t where "t = (if m < 2 ^ 53 then E + 1 else E + 2)"
  define g where "g = (if m < 2 ^ 53 then f else 0)"
  define S :: nat where "S = (if neg then 2048 else 0)"
  have m: "m = 2 ^ 52 + f" and f: "f \<le> 2 ^ 52"
    using mlo mhi by (simp_all add: f_def)
  have g: "g < 2 ^ 52"
    using f m by (auto simp: g_def)
  have t: "t \<le> 2046"
    using E by (simp add: t_def)
  have split: "E * 2 ^ 52 + m = t * 2 ^ 52 + g"
    using m f by (auto simp: t_def g_def)
  have val: "(if neg then 2 ^ 63 else 0) + (E * 2 ^ 52 + m) = (S + t) * 2 ^ 52 + g"
    unfolding split by (simp add: S_def)
  have "(S + t) * 2 ^ 52 + g < 2 ^ 64"
    using t g by (simp add: S_def)
  moreover have "unat (of_nat N :: k64f) = N" if "N < 2 ^ 64" for N
    using that by (simp add: unat_of_nat)
  ultimately have "unat (of_nat ((S + t) * 2 ^ 52 + g) :: k64f) = (S + t) * 2 ^ 52 + g"
    by blast
  then have u: "unat x = (S + t) * 2 ^ 52 + g"
    unfolding x_def by (simp only: val)
  have dv: "unat x div 2 ^ 52 = S + t"
    unfolding u using g by simp
  show "k64f_sign x = neg"
    unfolding k64f_sign_def u using t g by (simp add: S_def)
  have md: "(S + t) mod 2048 = t"
    using t by (cases neg) (simp_all add: S_def)
  show "k64f_biased_exponent x = (if m < 2 ^ 53 then E + 1 else E + 2)"
    unfolding k64f_biased_exponent_def dv md by (simp only: t_def)
  have "(a * c + g) mod c = g" if "g < c" for a c :: nat
    using that by simp
  from this [OF g] have "((S + t) * 2 ^ 52 + g) mod 2 ^ 52 = g" .
  then show "k64f_fraction x = (if m < 2 ^ 53 then m - 2 ^ 52 else 0)"
    unfolding k64f_fraction_def u by (simp only: g_def f_def)
qed

text \<open>
  So the conversions give the quotient to within half a unit of the last place, for
  every 32-bit value of the sensor.
\<close>

lemma k64f_of_ratio_accurate:
  assumes n: "n \<noteq> 0" and d: "0 < d"
    and up: "bitlen_nat (nat \<bar>n\<bar>) + 3 \<le> bitlen_nat d + 53"
    and lo: "bitlen_nat d \<le> bitlen_nat (nat \<bar>n\<bar>) + 1000"
  shows "k64f_within_half_ulp (k64f_of_ratio n d) n d"
proof -
  define N where "N = nat \<bar>n\<bar>"
  define s :: int where "s = (if n < 0 then - 1 else 1)"
  have N: "0 < N" and sN: "n = s * int N"
    using n by (simp_all add: N_def s_def)
  from k64f_nearest_parts [OF N d up [folded N_def] lo [folded N_def]]
  obtain k m where val: "k64f_nearest N d = (1074 - k) * 2 ^ 52 + m"
    and k: "2 \<le> k" "k \<le> 1074"
    and m: "2 ^ 52 \<le> m" "m \<le> 2 ^ 53"
    and r: "2 * \<bar>int m * int d - int N * 2 ^ k\<bar> \<le> int d"
    by blast
  let ?x = "k64f_of_ratio n d"
  have x: "?x = of_nat ((if n < 0 then 2 ^ 63 else 0) + ((1074 - k) * 2 ^ 52 + m))"
    using n by (simp only: k64f_of_ratio_def N_def [symmetric] val if_False)
  have E: "1074 - k \<le> 2044" by simp
  note dec = k64f_decode [OF E m, of "n < 0", folded x]
  have sg: "(if k64f_sign ?x then - 1 else 1) = s"
    by (simp add: dec(1) s_def)
  show ?thesis
  proof (cases "m < 2 ^ 53")
    case True
    have b: "k64f_biased_exponent ?x = 1075 - k"
      using dec(2) True k by simp
    have sig: "int (k64f_significand ?x) = int m"
      using dec(3) True m b k by (simp add: k64f_significand_def)
    have ex: "k64f_exponent ?x = - int k"
      using b k by (simp add: k64f_exponent_def)
    have "s * int m * int d - n * 2 ^ k = s * (int m * int d - int N * 2 ^ k)"
      by (simp add: sN algebra_simps)
    then have "\<bar>s * int m * int d - n * 2 ^ k\<bar> = \<bar>int m * int d - int N * 2 ^ k\<bar>"
      by (simp add: abs_mult s_def)
    with r have "2 * \<bar>s * int m * int d - n * 2 ^ k\<bar> \<le> int d"
      by simp
    then show ?thesis
      unfolding k64f_within_half_ulp_def Let_def sg sig ex using b k by simp
  next
    case False
    with m have m53: "m = 2 ^ 53" by simp
    have b: "k64f_biased_exponent ?x = 1076 - k"
      using dec(2) False k by simp
    have sig: "int (k64f_significand ?x) = 2 ^ 52"
      using dec(3) False b k by (simp add: k64f_significand_def)
    have ex: "k64f_exponent ?x = - int (k - 1)"
      using b k by (simp add: k64f_exponent_def)
    have pk: "(2::int) ^ k = 2 * 2 ^ (k - 1)"
      using k by (cases k) simp_all
    define Y where "Y = 2 ^ 52 * int d - int N * 2 ^ (k - 1)"
    have "int m * int d - int N * 2 ^ k = 2 * Y"
      unfolding m53 pk Y_def by simp
    then have "\<bar>int m * int d - int N * 2 ^ k\<bar> = 2 * \<bar>Y\<bar>"
      by (simp add: abs_mult)
    with r have "2 * (2 * \<bar>Y\<bar>) \<le> int d"
      by (simp only:)
    moreover define a where "a = \<bar>Y\<bar>"
    ultimately have "2 * (2 * a) \<le> int d" and "0 \<le> a"
      by simp_all
    then have "2 * a \<le> int d"
      by simp
    then have "2 * \<bar>Y\<bar> \<le> int d"
      by (simp only: a_def)
    then have "2 * \<bar>2 ^ 52 * int d - int N * 2 ^ (k - 1)\<bar> \<le> int d"
      by (simp only: Y_def)
    moreover have "s * 2 ^ 52 * int d - n * 2 ^ (k - 1) =
        s * (2 ^ 52 * int d - int N * 2 ^ (k - 1))"
      by (simp add: sN algebra_simps)
    then have "\<bar>s * 2 ^ 52 * int d - n * 2 ^ (k - 1)\<bar> =
        \<bar>2 ^ 52 * int d - int N * 2 ^ (k - 1)\<bar>"
      by (simp add: abs_mult s_def)
    ultimately have "2 * \<bar>s * 2 ^ 52 * int d - n * 2 ^ (k - 1)\<bar> \<le> int d"
      by simp
    moreover have "nat (int k - 1) = k - 1"
      using k by simp
    ultimately show ?thesis
      unfolding k64f_within_half_ulp_def Let_def sg sig ex using b k by simp
  qed
qed

lemma k64f_zero: "k64f_within_half_ulp 0 0 d"
  by (simp add: k64f_within_half_ulp_def k64f_biased_exponent_def k64f_significand_def
      k64f_fraction_def k64f_exponent_def)

lemma NM_TO_MM_accurate:
  fixes v :: k32u
  shows "k64f_within_half_ulp (NM_TO_MM (uint v)) (uint v) 1000000"
proof (cases "uint v = 0")
  case True
  then show ?thesis by (simp add: NM_TO_MM_def k64f_of_ratio_def k64f_zero)
next
  case False
  have "unat v < 2 ^ 32" using unsigned_less [of v, where 'a = nat] by simp
  moreover from False have "v \<noteq> 0" by auto
  then have "0 < unat v" by (simp add: unat_gt_0)
  ultimately have n: "0 < nat \<bar>uint v\<bar>" "nat \<bar>uint v\<bar> \<le> 2 ^ 32"
    by simp_all
  have d: "bitlen_nat 1000000 = 20" by (simp add: bitlen_nat.simps)
  show ?thesis
    unfolding NM_TO_MM_def
  proof (rule k64f_of_ratio_accurate)
    show "uint v \<noteq> 0" by fact
    show "0 < (1000000::nat)" by simp
    show "bitlen_nat (nat \<bar>uint v\<bar>) + 3 \<le> bitlen_nat 1000000 + 53"
      using bitlen_nat_le(2) [OF n] by (simp add: d)
    show "bitlen_nat 1000000 \<le> bitlen_nat (nat \<bar>uint v\<bar>) + 1000"
      by (simp add: d)
  qed
qed

lemma UM_TO_MM_accurate:
  fixes v :: k32s
  shows "k64f_within_half_ulp (UM_TO_MM (sint v)) (sint v) 1000"
proof (cases "sint v = 0")
  case True
  then show ?thesis by (simp add: UM_TO_MM_def k64f_of_ratio_def k64f_zero)
next
  case False
  have "- (2 ^ 31) \<le> sint v" "sint v < 2 ^ 31"
    using sint_range_size [of v] by (simp_all add: word_size)
  then have n: "0 < nat \<bar>sint v\<bar>" "nat \<bar>sint v\<bar> \<le> 2 ^ 32"
    using False by simp_all
  have d: "bitlen_nat 1000 = 10" by (simp add: bitlen_nat.simps)
  show ?thesis
    unfolding UM_TO_MM_def
  proof (rule k64f_of_ratio_accurate)
    show "sint v \<noteq> 0" by fact
    show "0 < (1000::nat)" by simp
    show "bitlen_nat (nat \<bar>sint v\<bar>) + 3 \<le> bitlen_nat 1000 + 53"
      using bitlen_nat_le(2) [OF n] by (simp add: d)
    show "bitlen_nat 1000 \<le> bitlen_nat (nat \<bar>sint v\<bar>) + 1000"
      by (simp add: d)
  qed
qed

section \<open>Bytes\<close>

lemma length_le_bytes [simp]: "length (le_bytes n v) = n"
  by (induction n arbitrary: v) simp_all

lemma le_value_le_bytes: "v < 256 ^ n \<Longrightarrow> le_value (le_bytes n v) = v"
proof (induction n arbitrary: v)
  case 0
  then show ?case by simp
next
  case (Suc n)
  have "v div 256 < 256 ^ n"
    using Suc.prems by (simp add: less_mult_imp_div_less mult.commute)
  then have "le_value (le_bytes n (v div 256)) = v div 256"
    by (rule Suc.IH)
  moreover have "unat (of_nat (v mod 256) :: byte) = v mod 256"
    by (simp add: unat_of_nat)
  ultimately show ?case by simp
qed

lemma length_bytes_k16s [simp]: "length (bytes_k16s x) = 2"
  by (simp add: bytes_k16s_def)

lemma length_bytes_k32u [simp]: "length (bytes_k32u x) = 4"
  by (simp add: bytes_k32u_def)

lemma length_bytes_k64u [simp]: "length (bytes_k64u x) = 8"
  by (simp add: bytes_k64u_def)

lemma length_bytes_k64f [simp]: "length (bytes_k64f x) = 8"
  by (simp add: bytes_k64f_def)

lemma length_bytes_row [simp]: "length (bytes_row data) = 2 * length data"
  by (induction data) (simp_all add: bytes_row_def)

lemma length_bytes_chars [simp]: "length (bytes_chars s) = length s"
  by (simp add: bytes_chars_def)

lemma length_HEADERTEXT [simp]: "length HEADERTEXT = 16"
  by (simp add: HEADERTEXT_def)

text \<open>
  Reading the bytes of an object gives the object back.
\<close>

lemma read_k16s: "of_nat (le_value (bytes_k16s x)) = x"
proof -
  have "unat x < 256 ^ 2" using unsigned_less [of x, where 'a = nat] by simp
  then show ?thesis by (simp add: bytes_k16s_def le_value_le_bytes)
qed

lemma read_k32u: "of_nat (le_value (bytes_k32u x)) = x"
proof -
  have "unat x < 256 ^ 4" using unsigned_less [of x, where 'a = nat] by simp
  then show ?thesis by (simp add: bytes_k32u_def le_value_le_bytes)
qed

lemma read_k64u: "of_nat (le_value (bytes_k64u x)) = x"
proof -
  have "unat x < 256 ^ 8" using unsigned_less [of x, where 'a = nat] by simp
  then show ?thesis by (simp add: bytes_k64u_def le_value_le_bytes)
qed

lemma read_k64f: "of_nat (le_value (bytes_k64f x)) = x"
  using read_k64u [of x] by (simp add: bytes_k64u_def bytes_k64f_def)

lemma bytes_k16s_two: "\<exists>b0 b1. bytes_k16s x = [b0, b1]"
  by (simp add: bytes_k16s_def numeral_2_eq_2)

lemma samples_bytes_row: "samples (bytes_row data @ rest) = data @ samples rest"
proof (induction data)
  case Nil
  then show ?case by (simp add: bytes_row_def)
next
  case (Cons x data)
  obtain b0 b1 where b: "bytes_k16s x = [b0, b1]"
    using bytes_k16s_two by blast
  have "of_nat (le_value [b0, b1]) = x"
    using read_k16s [of x] b by simp
  with Cons b show ?case by (simp add: bytes_row_def)
qed

lemma bytes_row_concat: "concat (map bytes_row rows) = bytes_row (concat rows)"
  by (induction rows) (simp_all add: bytes_row_def)

lemma samples_rows: "samples (concat (map bytes_row rows)) = concat rows"
  using samples_bytes_row [of "concat rows" "[]"] by (simp add: bytes_row_concat)

section \<open>Sequences of writes\<close>

lemma fst_fwrite: "fst (fwrite ptr sz cap stream) = (if sz \<le> cap \<and> sz \<noteq> 0 then 1 else 0)"
  by (simp add: fwrite_def)

lemma snd_fwrite: "snd (fwrite ptr sz cap stream) = stream @ take (min sz cap) ptr"
  by (simp add: fwrite_def min_def)

lemma fwrite_seq_Cons:
  "fwrite_seq ((ptr, sz) # calls) cap k stream =
     (fst (fwrite ptr sz (cap k) stream) #
        fst (fwrite_seq calls cap (Suc k) (snd (fwrite ptr sz (cap k) stream))),
      snd (fwrite_seq calls cap (Suc k) (snd (fwrite ptr sz (cap k) stream))))"
  by (simp add: Let_def split: prod.splits)

declare fwrite_seq.simps(2) [simp del]

lemma length_fst_fwrite_seq [simp]: "length (fst (fwrite_seq calls cap k stream)) = length calls"
proof (induction calls arbitrary: k stream)
  case Nil
  then show ?case by simp
next
  case (Cons c calls)
  obtain ptr sz where c: "c = (ptr, sz)" by (cases c)
  show ?case
    unfolding c fwrite_seq_Cons by (simp add: Cons.IH)
qed

text \<open>
  The results of the calls depend on the sizes asked for alone.
\<close>

lemma fst_fwrite_seq_sizes:
  "map snd calls = map snd calls' \<Longrightarrow>
   fst (fwrite_seq calls cap k stream) = fst (fwrite_seq calls' cap k stream')"
proof (induction calls arbitrary: calls' k stream stream')
  case Nil
  then show ?case by simp
next
  case (Cons c calls)
  obtain ptr sz where c: "c = (ptr, sz)" by (cases c)
  from Cons.prems c obtain ptr' rest where calls': "calls' = (ptr', sz) # rest"
    and rest: "map snd calls = map snd rest"
    by (cases calls') auto
  show ?case
    unfolding c calls' fwrite_seq_Cons
    using Cons.IH [OF rest] by (simp add: fst_fwrite)
qed

lemma fst_fwrite_seq_Cons:
  "fst (fwrite_seq ((ptr, sz) # calls) cap k stream) =
     (if sz \<le> cap k \<and> sz \<noteq> 0 then 1 else 0) # fst (fwrite_seq calls cap (Suc k) [])"
  using fst_fwrite_seq_sizes [of calls calls cap "Suc k" "snd (fwrite ptr sz (cap k) stream)" "[]"]
  by (simp add: fwrite_seq_Cons fst_fwrite)

lemma snd_fwrite_seq_Cons:
  "snd (fwrite_seq ((ptr, sz) # calls) cap k stream) =
     snd (fwrite_seq calls cap (Suc k) (stream @ take (min sz (cap k)) ptr))"
  by (simp add: fwrite_seq_Cons snd_fwrite)

lemma fst_fwrite_seq_append:
  "fst (fwrite_seq (calls @ calls') cap k stream) =
   fst (fwrite_seq calls cap k stream) @
   fst (fwrite_seq calls' cap (k + length calls) (snd (fwrite_seq calls cap k stream)))"
proof (induction calls arbitrary: k stream)
  case Nil
  then show ?case by simp
next
  case (Cons c calls)
  obtain ptr sz where c: "c = (ptr, sz)" by (cases c)
  show ?case
    unfolding c append_Cons fwrite_seq_Cons
    by (simp add: Cons.IH)
qed

lemma snd_fwrite_seq_append:
  "snd (fwrite_seq (calls @ calls') cap k stream) =
   snd (fwrite_seq calls' cap (k + length calls) (snd (fwrite_seq calls cap k stream)))"
proof (induction calls arbitrary: k stream)
  case Nil
  then show ?case by simp
next
  case (Cons c calls)
  obtain ptr sz where c: "c = (ptr, sz)" by (cases c)
  show ?case
    unfolding c append_Cons fwrite_seq_Cons
    by (simp add: Cons.IH)
qed

text \<open>
  When every call returns 1 the stream holds every item in full.
\<close>

lemma snd_fwrite_seq_ok:
  "list_all (\<lambda>fwriteStatus. fwriteStatus = 1) (fst (fwrite_seq calls cap k stream)) \<Longrightarrow>
   snd (fwrite_seq calls cap k stream) = stream @ concat (map (\<lambda>(ptr, sz). take sz ptr) calls)"
proof (induction calls arbitrary: k stream)
  case Nil
  then show ?case by simp
next
  case (Cons c calls)
  obtain ptr sz where c: "c = (ptr, sz)" by (cases c)
  from Cons.prems have ok: "sz \<le> cap k"
    and rest: "list_all (\<lambda>fwriteStatus. fwriteStatus = 1)
      (fst (fwrite_seq calls cap (Suc k) (snd (fwrite ptr sz (cap k) stream))))"
    unfolding c fwrite_seq_Cons by (auto simp: fst_fwrite split: if_splits)
  show ?case
    unfolding c fwrite_seq_Cons
    using Cons.IH [OF rest] ok by (simp add: snd_fwrite min_def)
qed

text \<open>
  Whatever the calls return, the stream only grows, by no more than was asked for.
\<close>

lemma snd_fwrite_seq_prefix:
  "\<exists>written. snd (fwrite_seq calls cap k stream) = stream @ written \<and>
     length written \<le> sum_list (map snd calls)"
proof (induction calls arbitrary: k stream)
  case Nil
  then show ?case by simp
next
  case (Cons c calls)
  obtain ptr sz where c: "c = (ptr, sz)" by (cases c)
  from Cons.IH [of "Suc k" "snd (fwrite ptr sz (cap k) stream)"]
  obtain written where w: "snd (fwrite_seq calls cap (Suc k) (snd (fwrite ptr sz (cap k) stream)))
      = snd (fwrite ptr sz (cap k) stream) @ written"
    and l: "length written \<le> sum_list (map snd calls)"
    by blast
  have "snd (fwrite_seq (c # calls) cap k stream) = stream @ (take (min sz (cap k)) ptr @ written)"
    unfolding c fwrite_seq_Cons using w by (simp add: snd_fwrite)
  moreover have "length (take (min sz (cap k)) ptr @ written) \<le> sum_list (map snd (c # calls))"
    using l c by simp
  ultimately show ?case by blast
qed

text \<open>
  How long the stream gets depends on the sizes asked for and the lengths of the buffers
  alone.
\<close>

lemma length_snd_fwrite_seq_sizes:
  "map snd calls = map snd calls' \<Longrightarrow>
   map (\<lambda>(ptr, sz). length ptr) calls = map (\<lambda>(ptr, sz). length ptr) calls' \<Longrightarrow>
   length stream = length stream' \<Longrightarrow>
   length (snd (fwrite_seq calls cap k stream)) = length (snd (fwrite_seq calls' cap k stream'))"
proof (induction calls arbitrary: calls' k stream stream')
  case Nil
  then show ?case by simp
next
  case (Cons c calls)
  obtain ptr sz where c: "c = (ptr, sz)" by (cases c)
  from Cons.prems(1,2) c obtain ptr' rest where calls': "calls' = (ptr', sz) # rest"
    and rest: "map snd calls = map snd rest"
      "map (\<lambda>(ptr, sz). length ptr) calls = map (\<lambda>(ptr, sz). length ptr) rest"
    and ptr': "length ptr = length ptr'"
    by (cases calls') auto
  have "length (stream @ take (min sz (cap k)) ptr) = length (stream' @ take (min sz (cap k)) ptr')"
    using Cons.prems(3) ptr' by simp
  then show ?case
    unfolding c calls' snd_fwrite_seq_Cons
    by (rule Cons.IH [OF rest])
qed

text \<open>
  Closing the stream.
\<close>

lemma fst_fclose: "fst (fclose cap stream) = 0 \<longleftrightarrow> length stream \<le> cap"
  by (simp add: fclose_def EOF_def)

lemma snd_fclose: "snd (fclose cap stream) = take cap stream"
  by (simp add: fclose_def)

section \<open>The stream of a surface file\<close>

lemma length_header_fwrites [simp]: "length (header_fwrites context surfaceMsg) = 12"
  by (simp add: header_fwrites_def Let_def)

lemma sizes_header_fwrites:
  "map snd (header_fwrites context surfaceMsg) = [16, 8, 4, 4, 8, 8, 8, 8, 8, 8, 8, 8]"
  by (simp add: header_fwrites_def Let_def)

lemma header_bytes_eq:
  "header_bytes context surfaceMsg =
     bytes_chars HEADERTEXT @
     bytes_k64u (timeStamp context) @
     bytes_k32u (Width surfaceMsg) @
     bytes_k32u (Length surfaceMsg) @
     bytes_k64f (UM_TO_MM (sint (XOffset surfaceMsg))) @
     bytes_k64f (NM_TO_MM (uint (XResolution surfaceMsg))) @
     bytes_k64f (UM_TO_MM (sint (YOffset surfaceMsg))) @
     bytes_k64f (NM_TO_MM (uint (YResolution surfaceMsg))) @
     bytes_k64f (UM_TO_MM (sint (ZOffset surfaceMsg))) @
     bytes_k64f (NM_TO_MM (uint (ZResolution surfaceMsg))) @
     bytes_k64f (frameRate context) @
     bytes_k64f (exposureTime context)"
  by (simp add: header_bytes_def header_fwrites_def Let_def)

lemma length_header_bytes [simp]: "length (header_bytes context surfaceMsg) = 96"
  by (simp add: header_bytes_eq)

lemma header_bytes_count [simp]:
  "header_bytes (context\<lparr>count := c\<rparr>) surfaceMsg = header_bytes context surfaceMsg"
  by (simp add: header_bytes_eq)

lemma length_row_fwrites [simp]: "length (row_fwrites surfaceMsg) = unat (Length surfaceMsg)"
  by (simp add: row_fwrites_def)

lemma row_fwrites_wf:
  assumes "wf_surface surfaceMsg"
  shows "map (\<lambda>(ptr, sz). take sz ptr) (row_fwrites surfaceMsg) = map bytes_row (Rows surfaceMsg)"
proof -
  let ?rows = "Rows surfaceMsg"
  from assms have len: "unat (Length surfaceMsg) = length ?rows"
    and wid: "\<And>data. data \<in> set ?rows \<Longrightarrow> length data = unat (Width surfaceMsg)"
    by (simp_all add: wf_surface_def list_all_iff)
  have "map (\<lambda>(ptr, sz). take sz ptr) (row_fwrites surfaceMsg) =
        map (\<lambda>rowIdx. bytes_row (?rows ! rowIdx)) [0..<length ?rows]"
    using wid by (simp add: row_fwrites_def len GoSurfaceMsg_RowAt_def)
  also have "\<dots> = map bytes_row (map (\<lambda>rowIdx. ?rows ! rowIdx) [0..<length ?rows])"
    by simp
  also have "\<dots> = map bytes_row ?rows"
    by (simp only: map_nth)
  finally show ?thesis .
qed

lemma length_rows_wf:
  assumes "wf_surface surfaceMsg"
  shows "length (concat (map bytes_row (Rows surfaceMsg))) =
         2 * unat (Width surfaceMsg) * unat (Length surfaceMsg)"
proof -
  from assms have len: "unat (Length surfaceMsg) = length (Rows surfaceMsg)"
    and wid: "\<And>data. data \<in> set (Rows surfaceMsg) \<Longrightarrow> length data = unat (Width surfaceMsg)"
    by (simp_all add: wf_surface_def list_all_iff)
  have "map length (map bytes_row (Rows surfaceMsg)) =
        map (\<lambda>data. 2 * unat (Width surfaceMsg)) (Rows surfaceMsg)"
    using wid by simp
  then have "length (concat (map bytes_row (Rows surfaceMsg))) =
        sum_list (map (\<lambda>data. 2 * unat (Width surfaceMsg)) (Rows surfaceMsg))"
    by (simp only: length_concat)
  then show ?thesis
    by (simp add: len sum_list_triv)
qed

text \<open>
  What the calls return and how long the stream gets do not depend on the context, and
  the header is made from three of its fields.
\<close>

lemma statuses_context:
  "fst (surface_stream context os surfaceMsg) = fst (surface_stream context' os surfaceMsg)"
  unfolding surface_stream_def
  by (rule fst_fwrite_seq_sizes) (simp add: sizes_header_fwrites)

lemma length_stream_context:
  "length (snd (surface_stream context os surfaceMsg)) =
   length (snd (surface_stream context' os surfaceMsg))"
  unfolding surface_stream_def
  by (rule length_snd_fwrite_seq_sizes) (simp_all add: header_fwrites_def Let_def)

lemma encoded_successfully_context:
  "encoded_successfully context os surfaceMsg = encoded_successfully context' os surfaceMsg"
  unfolding encoded_successfully_def fst_fclose
  using statuses_context [of "context" os surfaceMsg context']
    length_stream_context [of "context" os surfaceMsg context']
  by simp

lemma header_written_context:
  "header_written context os surfaceMsg = header_written context' os surfaceMsg"
  unfolding header_written_def using statuses_context [of "context" os surfaceMsg context']
  by simp

lemma surface_stream_cong:
  "timeStamp c = timeStamp c' \<Longrightarrow> frameRate c = frameRate c' \<Longrightarrow>
   exposureTime c = exposureTime c' \<Longrightarrow>
   surface_stream c os surfaceMsg = surface_stream c' os surfaceMsg"
  by (simp add: surface_stream_def header_fwrites_def)

lemma surface_file_bytes_cong:
  "timeStamp c = timeStamp c' \<Longrightarrow> frameRate c = frameRate c' \<Longrightarrow>
   exposureTime c = exposureTime c' \<Longrightarrow>
   surface_file_bytes c os surfaceMsg = surface_file_bytes c' os surfaceMsg"
  unfolding surface_file_bytes_def by (simp add: surface_stream_cong [of c c'])

text \<open>
  The stream after the header, and after all the rows.
\<close>

lemma stream_header:
  assumes "list_all (\<lambda>fwriteStatus. fwriteStatus = 1)
             (take 12 (fst (surface_stream context os surfaceMsg)))"
  shows "\<exists>written. snd (surface_stream context os surfaceMsg) =
           header_bytes context surfaceMsg @ written \<and>
           length written \<le> 2 * unat (Width surfaceMsg) * unat (Length surfaceMsg)"
proof -
  let ?H = "header_fwrites context surfaceMsg" and ?R = "row_fwrites surfaceMsg"
  let ?cap = "fwrite_cap os"
  have "take 12 (fst (surface_stream context os surfaceMsg)) = fst (fwrite_seq ?H ?cap 0 [])"
    by (simp add: surface_stream_def fst_fwrite_seq_append)
  with assms have "list_all (\<lambda>fwriteStatus. fwriteStatus = 1) (fst (fwrite_seq ?H ?cap 0 []))"
    by simp
  then have H: "snd (fwrite_seq ?H ?cap 0 []) = header_bytes context surfaceMsg"
    by (simp add: snd_fwrite_seq_ok header_bytes_def)
  obtain written where w: "snd (fwrite_seq ?R ?cap 12 (header_bytes context surfaceMsg)) =
      header_bytes context surfaceMsg @ written"
    and l: "length written \<le> sum_list (map snd ?R)"
    using snd_fwrite_seq_prefix by blast
  have "sum_list (map snd ?R) = 2 * unat (Width surfaceMsg) * unat (Length surfaceMsg)"
    by (simp add: row_fwrites_def comp_def sum_list_triv)
  with w l H show ?thesis
    by (auto simp: surface_stream_def snd_fwrite_seq_append)
qed

lemma stream_all_written:
  assumes "wf_surface surfaceMsg"
    and "list_all (\<lambda>fwriteStatus. fwriteStatus = 1) (fst (surface_stream context os surfaceMsg))"
  shows "snd (surface_stream context os surfaceMsg) =
           header_bytes context surfaceMsg @ concat (map bytes_row (Rows surfaceMsg))"
proof -
  from assms(2) have "snd (surface_stream context os surfaceMsg) =
      concat (map (\<lambda>(ptr, sz). take sz ptr)
        (header_fwrites context surfaceMsg @ row_fwrites surfaceMsg))"
    unfolding surface_stream_def by (simp add: snd_fwrite_seq_ok)
  then show ?thesis
    using row_fwrites_wf [OF assms(1)] by (simp add: header_bytes_def)
qed

lemma encoded_successfully_header:
  assumes "encoded_successfully context os surfaceMsg"
  shows "header_written context os surfaceMsg"
proof -
  from assms have o: "fopen_ok os"
    and a: "list_all (\<lambda>fwriteStatus. fwriteStatus = 1) (fst (surface_stream context os surfaceMsg))"
    and c: "length (snd (surface_stream context os surfaceMsg)) \<le> fclose_cap os"
    by (simp_all add: encoded_successfully_def fst_fclose)
  from a have h: "list_all (\<lambda>fwriteStatus. fwriteStatus = 1)
      (take 12 (fst (surface_stream context os surfaceMsg)))"
    by (auto simp: list_all_iff dest: in_set_takeD)
  from stream_header [OF h] c have "96 \<le> fclose_cap os"
    by auto
  with o h show ?thesis
    by (simp add: header_written_def)
qed

text \<open>
  The file after \<^verbatim>\<open>fclose\<close>: it begins with the header when the header is written, and
  it is header and rows when the file is encoded successfully.
\<close>

lemma file_header:
  assumes "header_written context os surfaceMsg"
  shows "\<exists>written. surface_file_bytes context os surfaceMsg =
           header_bytes context surfaceMsg @ written \<and>
           length written \<le> 2 * unat (Width surfaceMsg) * unat (Length surfaceMsg)"
proof -
  from assms have h: "list_all (\<lambda>fwriteStatus. fwriteStatus = 1)
      (take 12 (fst (surface_stream context os surfaceMsg)))"
    and c: "96 \<le> fclose_cap os"
    by (simp_all add: header_written_def)
  from stream_header [OF h] obtain written where
    w: "snd (surface_stream context os surfaceMsg) = header_bytes context surfaceMsg @ written"
    and l: "length written \<le> 2 * unat (Width surfaceMsg) * unat (Length surfaceMsg)"
    by blast
  have "surface_file_bytes context os surfaceMsg =
      header_bytes context surfaceMsg @ take (fclose_cap os - 96) written"
    using c by (simp add: surface_file_bytes_def snd_fclose w)
  moreover have "length (take (fclose_cap os - 96) written) \<le>
      2 * unat (Width surfaceMsg) * unat (Length surfaceMsg)"
    using l by simp
  ultimately show ?thesis by blast
qed

lemma file_complete:
  assumes "wf_surface surfaceMsg" and "encoded_successfully context os surfaceMsg"
  shows "surface_file_bytes context os surfaceMsg =
           header_bytes context surfaceMsg @ concat (map bytes_row (Rows surfaceMsg))"
proof -
  from assms(2) have
    a: "list_all (\<lambda>fwriteStatus. fwriteStatus = 1) (fst (surface_stream context os surfaceMsg))"
    and c: "length (snd (surface_stream context os surfaceMsg)) \<le> fclose_cap os"
    by (simp_all add: encoded_successfully_def fst_fclose)
  from c show ?thesis
    by (simp add: surface_file_bytes_def snd_fclose stream_all_written [OF assms(1) a])
qed

text \<open>
  Reading a file that begins with the header.
\<close>

lemma read_header:
  "read_surface_file (header_bytes context surfaceMsg @ written) =
     \<lparr>file_headerText = bytes_chars HEADERTEXT,
      file_timeStamp = timeStamp context,
      file_surfaceWidth = Width surfaceMsg,
      file_surfaceLength = Length surfaceMsg,
      file_xOffset = UM_TO_MM (sint (XOffset surfaceMsg)),
      file_xResolution = NM_TO_MM (uint (XResolution surfaceMsg)),
      file_yOffset = UM_TO_MM (sint (YOffset surfaceMsg)),
      file_yResolution = NM_TO_MM (uint (YResolution surfaceMsg)),
      file_zOffset = UM_TO_MM (sint (ZOffset surfaceMsg)),
      file_zResolution = NM_TO_MM (uint (ZResolution surfaceMsg)),
      file_frameRate = frameRate context,
      file_exposureTime = exposureTime context,
      file_surface = samples written\<rparr>"
  by (simp add: read_surface_file_def field_def header_bytes_eq read_k64u read_k32u read_k64f)

lemma file_timeStamp:
  assumes "header_written context os surfaceMsg"
  shows "file_timeStamp (read_surface_file (surface_file_bytes context os surfaceMsg)) =
         timeStamp context"
proof -
  from file_header [OF assms] obtain written where
    "surface_file_bytes context os surfaceMsg = header_bytes context surfaceMsg @ written"
    by blast
  then show ?thesis by (simp add: read_header)
qed

section \<open>The surface case\<close>

lemma surface_case_opened:
  "fopen_ok os \<Longrightarrow>
   surface_case context fs os surfaceMsg =
     (Break, context\<lparr>count := count context + 1\<rparr>,
      fs @ [(surface_filename (SystemTime os) (count context + 1),
             surface_file_bytes (context\<lparr>count := count context + 1\<rparr>) os surfaceMsg)])"
  by (simp add: surface_case_def surface_file_bytes_def Let_def split: prod.splits)

lemma surface_case_not_opened:
  "\<not> fopen_ok os \<Longrightarrow>
   surface_case context fs os surfaceMsg = (Return, context\<lparr>count := count context + 1\<rparr>, fs)"
  by (simp add: surface_case_def Let_def)

lemma surface_case_header:
  assumes "header_written context os surfaceMsg"
  shows "\<exists>written.
     surface_case context fs os surfaceMsg =
       (Break, context\<lparr>count := count context + 1\<rparr>,
        fs @ [(surface_filename (SystemTime os) (count context + 1),
               header_bytes context surfaceMsg @ written)]) \<and>
     length written \<le> 2 * unat (Width surfaceMsg) * unat (Length surfaceMsg)"
proof -
  let ?context' = "context\<lparr>count := count context + 1\<rparr>"
  from assms have h: "header_written ?context' os surfaceMsg"
    using header_written_context by blast
  then have "fopen_ok os" by (simp add: header_written_def)
  then show ?thesis
    using file_header [OF h] by (auto simp: surface_case_opened)
qed

lemma visible_last: "visible (fs @ [(name, bytes)]) name = Some bytes"
  by (simp add: visible_def)

section \<open>The loops\<close>

lemma stamp_loop_eq:
  "stamp_loop context stampMsg =
     (if stampMsg = [] then context else context\<lparr>timeStamp := timestamp (last stampMsg)\<rparr>)"
  by (induction stampMsg arbitrary: "context") simp_all

lemma measurement_loop_eq:
  "measurement_loop context msgId measurementMsg =
     context\<lparr>measFilePointer := measFilePointer context @
       concat (map (\<lambda>measurementData.
         measurement_line (count context) msgId (m_value measurementData)) measurementMsg)\<rparr>"
  by (induction measurementMsg arbitrary: "context") simp_all

text \<open>
  Counter, time stamp, log and files after the loop over a data set, in terms of the
  messages the loop got to.
\<close>

lemma dataset_loop_count:
  "count (fst (snd (dataset_loop context fs os i dataset))) =
     count context + of_nat (surface_messages (processed os i dataset))"
proof (induction dataset arbitrary: "context" fs i)
  case Nil
  then show ?case by simp
next
  case (Cons dataObj rest)
  show ?case
  proof (cases dataObj)
    case (GO_DATA_MESSAGE_TYPE_STAMP stampMsg)
    then show ?thesis by (simp add: Cons.IH stamp_loop_eq)
  next
    case (GO_DATA_MESSAGE_TYPE_SURFACE surfaceMsg)
    then show ?thesis
      by (cases "fopen_ok (os i)")
        (simp_all add: Cons.IH surface_case_opened surface_case_not_opened)
  next
    case (GO_DATA_MESSAGE_TYPE_MEASUREMENT msgId measurementMsg)
    then show ?thesis by (simp add: Cons.IH measurement_loop_eq)
  next
    case GO_DATA_MESSAGE_TYPE_OTHER
    then show ?thesis by (simp add: Cons.IH)
  qed
qed

lemma dataset_loop_timeStamp:
  "timeStamp (fst (snd (dataset_loop context fs os i dataset))) =
     (if stamp_records (processed os i dataset) = [] then timeStamp context
      else timestamp (last (stamp_records (processed os i dataset))))"
proof (induction dataset arbitrary: "context" fs i)
  case Nil
  then show ?case by simp
next
  case (Cons dataObj rest)
  show ?case
  proof (cases dataObj)
    case (GO_DATA_MESSAGE_TYPE_STAMP stampMsg)
    then show ?thesis by (simp add: Cons.IH stamp_loop_eq)
  next
    case (GO_DATA_MESSAGE_TYPE_SURFACE surfaceMsg)
    then show ?thesis
      by (cases "fopen_ok (os i)")
        (simp_all add: Cons.IH surface_case_opened surface_case_not_opened)
  next
    case (GO_DATA_MESSAGE_TYPE_MEASUREMENT msgId measurementMsg)
    then show ?thesis by (simp add: Cons.IH measurement_loop_eq)
  next
    case GO_DATA_MESSAGE_TYPE_OTHER
    then show ?thesis by (simp add: Cons.IH)
  qed
qed

lemma dataset_loop_log:
  "measFilePointer (fst (snd (dataset_loop context fs os i dataset))) =
     measFilePointer context @ measurement_lines (count context) (processed os i dataset)"
proof (induction dataset arbitrary: "context" fs i)
  case Nil
  then show ?case by simp
next
  case (Cons dataObj rest)
  show ?case
  proof (cases dataObj)
    case (GO_DATA_MESSAGE_TYPE_STAMP stampMsg)
    then show ?thesis by (simp add: Cons.IH stamp_loop_eq)
  next
    case (GO_DATA_MESSAGE_TYPE_SURFACE surfaceMsg)
    then show ?thesis
      by (cases "fopen_ok (os i)")
        (simp_all add: Cons.IH surface_case_opened surface_case_not_opened)
  next
    case (GO_DATA_MESSAGE_TYPE_MEASUREMENT msgId measurementMsg)
    then show ?thesis by (simp add: Cons.IH measurement_loop_eq)
  next
    case GO_DATA_MESSAGE_TYPE_OTHER
    then show ?thesis by (simp add: Cons.IH)
  qed
qed

lemma dataset_loop_settings:
  "frameRate (fst (snd (dataset_loop context fs os i dataset))) = frameRate context \<and>
   exposureTime (fst (snd (dataset_loop context fs os i dataset))) = exposureTime context"
proof (induction dataset arbitrary: "context" fs i)
  case Nil
  then show ?case by simp
next
  case (Cons dataObj rest)
  show ?case
  proof (cases dataObj)
    case (GO_DATA_MESSAGE_TYPE_STAMP stampMsg)
    then show ?thesis by (simp add: Cons.IH stamp_loop_eq)
  next
    case (GO_DATA_MESSAGE_TYPE_SURFACE surfaceMsg)
    then show ?thesis
      by (cases "fopen_ok (os i)")
        (simp_all add: Cons.IH surface_case_opened surface_case_not_opened)
  next
    case (GO_DATA_MESSAGE_TYPE_MEASUREMENT msgId measurementMsg)
    then show ?thesis by (simp add: Cons.IH measurement_loop_eq)
  next
    case GO_DATA_MESSAGE_TYPE_OTHER
    then show ?thesis by (simp add: Cons.IH)
  qed
qed

text \<open>
  Together: the context after the loop.
\<close>

lemma dataset_loop_context:
  "fst (snd (dataset_loop context fs os i dataset)) =
     context
       \<lparr>count := count context + of_nat (surface_messages (processed os i dataset)),
        timeStamp := stamp_in_force (timeStamp context) (processed os i dataset),
        measFilePointer :=
          measFilePointer context @ measurement_lines (count context) (processed os i dataset)\<rparr>"
  by (rule DataContext.equality)
    (simp_all add: dataset_loop_count dataset_loop_timeStamp dataset_loop_log
      dataset_loop_settings stamp_in_force_def)

text \<open>
  The loop from message \<open>Suc i\<close> on is the loop from message \<open>i\<close> on with the answers of
  the system moved by one.
\<close>

lemma dataset_loop_shift:
  "dataset_loop context fs os (Suc i) dataset = dataset_loop context fs (\<lambda>j. os (Suc j)) i dataset"
proof (induction dataset arbitrary: "context" fs i)
  case Nil
  then show ?case by simp
next
  case (Cons dataObj rest)
  show ?case
  proof (cases dataObj)
    case (GO_DATA_MESSAGE_TYPE_STAMP stampMsg)
    then show ?thesis by (simp add: Cons.IH)
  next
    case (GO_DATA_MESSAGE_TYPE_SURFACE surfaceMsg)
    then show ?thesis
      by (cases "fopen_ok (os (Suc i))")
        (simp_all add: Cons.IH surface_case_opened surface_case_not_opened)
  next
    case (GO_DATA_MESSAGE_TYPE_MEASUREMENT msgId measurementMsg)
    then show ?thesis by (simp add: Cons.IH)
  next
    case GO_DATA_MESSAGE_TYPE_OTHER
    then show ?thesis by (simp add: Cons.IH)
  qed
qed

lemma processed_shift:
  "processed os (Suc i) dataset = processed (\<lambda>j. os (Suc j)) i dataset"
proof (induction dataset arbitrary: i)
  case Nil
  then show ?case by simp
next
  case (Cons dataObj rest)
  then show ?case by (cases dataObj) simp_all
qed

text \<open>
  The time stamp in force and the number of surface messages after two lists of
  messages.
\<close>

lemma stamp_records_append:
  "stamp_records (pre @ post) = stamp_records pre @ stamp_records post"
  by (induction pre rule: stamp_records.induct) simp_all

lemma stamp_in_force_append:
  "stamp_in_force t (pre @ post) = stamp_in_force (stamp_in_force t pre) post"
  by (simp add: stamp_in_force_def stamp_records_append)

lemma surface_messages_append:
  "surface_messages (pre @ post) = surface_messages pre + surface_messages post"
  by (induction pre rule: surface_messages.induct) simp_all

text \<open>
  The surface files of a call, message by message.
\<close>

lemma surface_files_Nil: "surface_files context os [] = []"
  by (simp add: surface_files_def)

lemma surface_files_surface:
  "surface_files context os [GO_DATA_MESSAGE_TYPE_SURFACE surfaceMsg] =
     (if fopen_ok (os 0)
      then [(surface_filename (SystemTime (os 0)) (count context + 1),
             surface_file_bytes context (os 0) surfaceMsg)]
      else [])"
proof -
  have "surface_file_bytes (context\<lparr>timeStamp := timeStamp context\<rparr>) (os 0) surfaceMsg =
      surface_file_bytes context (os 0) surfaceMsg"
    by (rule surface_file_bytes_cong) simp_all
  then show ?thesis
    by (simp add: surface_files_def stamp_in_force_def)
qed

lemma surface_files_not_opened:
  "\<not> fopen_ok (os 0) \<Longrightarrow>
   surface_files context os (GO_DATA_MESSAGE_TYPE_SURFACE surfaceMsg # rest) = []"
  by (simp add: surface_files_def)

lemma surface_files_no_surface:
  "surface_messages [dataObj] = 0 \<Longrightarrow> surface_files context os [dataObj] = []"
  by (cases dataObj) (simp_all add: surface_files_def)

lemma surface_files_step:
  assumes p: "processed os 0 (dataObj # rest) = dataObj # processed (\<lambda>j. os (Suc j)) 0 rest"
    and c: "count context' = count context + of_nat (surface_messages [dataObj])"
    and t: "timeStamp context' = stamp_in_force (timeStamp context) [dataObj]"
    and f: "frameRate context' = frameRate context"
    and e: "exposureTime context' = exposureTime context"
  shows "surface_files context os (dataObj # rest) =
         surface_files context os [dataObj] @ surface_files context' (\<lambda>j. os (Suc j)) rest"
proof -
  let ?P = "processed (\<lambda>j. os (Suc j)) 0 rest"
  define entry where "entry = (\<lambda>c os pre dataObj.
     case dataObj of
       GO_DATA_MESSAGE_TYPE_SURFACE surfaceMsg \<Rightarrow>
         if fopen_ok os
         then [(surface_filename (SystemTime os) (count c + of_nat (surface_messages pre) + 1),
                surface_file_bytes (c\<lparr>timeStamp := stamp_in_force (timeStamp c) pre\<rparr>)
                  os surfaceMsg)]
         else []
     | _ \<Rightarrow> [])"
  have files: "surface_files c os' dataset =
      concat (map (\<lambda>i. entry c (os' i) (take i (processed os' 0 dataset)) (processed os' 0 dataset ! i))
        [0..<length (processed os' 0 dataset)])" for c os' dataset
    by (simp add: surface_files_def entry_def Let_def)
  have upt: "[0..<Suc (length ?P)] = 0 # map Suc [0..<length ?P]"
    by (simp only: map_Suc_upt upt_conv_Cons zero_less_Suc)
  have one: "processed os 0 [dataObj] = [dataObj]"
    by (cases dataObj) simp_all
  have step: "entry context (os (Suc j)) (dataObj # take j ?P) (?P ! j) =
      entry context' (os (Suc j)) (take j ?P) (?P ! j)" for j
  proof -
    have "stamp_in_force (timeStamp context) ([dataObj] @ take j ?P) =
        stamp_in_force (timeStamp context') (take j ?P)"
      by (simp only: stamp_in_force_append t)
    then have T: "stamp_in_force (timeStamp context) (dataObj # take j ?P) =
        stamp_in_force (timeStamp context') (take j ?P)"
      by simp
    have "surface_messages ([dataObj] @ take j ?P) =
        surface_messages [dataObj] + surface_messages (take j ?P)"
      by (rule surface_messages_append)
    then have C: "count context + of_nat (surface_messages (dataObj # take j ?P)) + 1 =
        count context' + of_nat (surface_messages (take j ?P)) + 1"
      using c by simp
    have B: "surface_file_bytes (context\<lparr>timeStamp := ts\<rparr>) os' surfaceMsg =
        surface_file_bytes (context'\<lparr>timeStamp := ts\<rparr>) os' surfaceMsg" for ts os' surfaceMsg
      by (rule surface_file_bytes_cong) (simp_all add: f e)
    show ?thesis
      unfolding entry_def by (cases "?P ! j") (simp_all add: T C B)
  qed
  have "surface_files context os (dataObj # rest) =
      entry context (os 0) [] dataObj @
      concat (map (\<lambda>j. entry context (os (Suc j)) (dataObj # take j ?P) (?P ! j)) [0..<length ?P])"
    unfolding files p by (simp add: upt comp_def del: upt_Suc)
  also have "entry context (os 0) [] dataObj = surface_files context os [dataObj]"
    unfolding files one by simp
  also have "concat (map (\<lambda>j. entry context (os (Suc j)) (dataObj # take j ?P) (?P ! j))
        [0..<length ?P]) = surface_files context' (\<lambda>j. os (Suc j)) rest"
    unfolding files by (simp only: step)
  finally show ?thesis .
qed

text \<open>
  The files after the loop over a data set are the files before it and the surface
  files of the call.
\<close>

lemma dataset_loop_surface_files:
  "snd (snd (dataset_loop context fs os 0 dataset)) = fs @ surface_files context os dataset"
proof (induction dataset arbitrary: "context" fs os)
  case Nil
  then show ?case by (simp add: surface_files_Nil)
next
  case (Cons dataObj rest)
  let ?os = "\<lambda>j. os (Suc j)"
  show ?case
  proof (cases dataObj)
    case st: (GO_DATA_MESSAGE_TYPE_STAMP stampMsg)
    let ?c = "stamp_loop context stampMsg"
    have "surface_files context os (dataObj # rest) =
        surface_files context os [dataObj] @ surface_files ?c ?os rest"
      by (rule surface_files_step)
        (simp_all add: st processed_shift stamp_loop_eq stamp_in_force_def)
    then show ?thesis
      using Cons.IH [of ?c fs ?os]
      by (simp add: st dataset_loop_shift surface_files_no_surface)
  next
    case s: (GO_DATA_MESSAGE_TYPE_SURFACE surfaceMsg)
    show ?thesis
    proof (cases "fopen_ok (os 0)")
      case True
      let ?c = "context\<lparr>count := count context + 1\<rparr>"
      let ?f = "(surface_filename (SystemTime (os 0)) (count context + 1),
                 surface_file_bytes ?c (os 0) surfaceMsg)"
      have "surface_files context os (dataObj # rest) =
          surface_files context os [dataObj] @ surface_files ?c ?os rest"
        by (rule surface_files_step)
          (simp_all add: s True processed_shift stamp_in_force_def)
      moreover have "surface_file_bytes ?c (os 0) surfaceMsg =
          surface_file_bytes context (os 0) surfaceMsg"
        by (rule surface_file_bytes_cong) simp_all
      ultimately show ?thesis
        using Cons.IH [of ?c "fs @ [?f]" ?os] True
        by (simp add: s dataset_loop_shift surface_case_opened surface_files_surface)
    next
      case False
      then show ?thesis
        by (simp add: s surface_case_not_opened surface_files_not_opened)
    qed
  next
    case m: (GO_DATA_MESSAGE_TYPE_MEASUREMENT msgId measurementMsg)
    let ?c = "measurement_loop context msgId measurementMsg"
    have "surface_files context os (dataObj # rest) =
        surface_files context os [dataObj] @ surface_files ?c ?os rest"
      by (rule surface_files_step)
        (simp_all add: m processed_shift measurement_loop_eq stamp_in_force_def)
    then show ?thesis
      using Cons.IH [of ?c fs ?os]
      by (simp add: m dataset_loop_shift surface_files_no_surface)
  next
    case ot: GO_DATA_MESSAGE_TYPE_OTHER
    have "surface_files context os (dataObj # rest) =
        surface_files context os [dataObj] @ surface_files context ?os rest"
      by (rule surface_files_step) (simp_all add: ot processed_shift stamp_in_force_def)
    then show ?thesis
      using Cons.IH [of "context" fs ?os]
      by (simp add: ot dataset_loop_shift surface_files_no_surface)
  qed
qed

text \<open>
  Stamps that are overwritten before the loop gets to a surface message leave no trace:
  of the stamps of one stamp message the loop keeps the last; and a stamp message
  that is followed by a stamp message with a stamp, with no surface message between the
  two, could as well have no stamps.
\<close>

lemma dataset_loop_stamp_last:
  "stampMsg \<noteq> [] \<Longrightarrow>
   dataset_loop context fs os i (pre @ GO_DATA_MESSAGE_TYPE_STAMP stampMsg # post) =
   dataset_loop context fs os i (pre @ GO_DATA_MESSAGE_TYPE_STAMP [last stampMsg] # post)"
proof (induction pre arbitrary: "context" fs i)
  case Nil
  then show ?case by (simp add: stamp_loop_eq)
next
  case (Cons dataObj pre)
  show ?case
  proof (cases dataObj)
    case (GO_DATA_MESSAGE_TYPE_STAMP stampMsg0)
    then show ?thesis by (simp add: Cons)
  next
    case (GO_DATA_MESSAGE_TYPE_SURFACE surfaceMsg)
    then show ?thesis
      by (cases "fopen_ok (os i)")
        (simp_all add: Cons surface_case_opened surface_case_not_opened)
  next
    case (GO_DATA_MESSAGE_TYPE_MEASUREMENT msgId measurementMsg)
    then show ?thesis by (simp add: Cons)
  next
    case GO_DATA_MESSAGE_TYPE_OTHER
    then show ?thesis by (simp add: Cons)
  qed
qed

lemma dataset_loop_stamp_ahead:
  "surface_messages mid = 0 \<Longrightarrow> later \<noteq> [] \<Longrightarrow>
   dataset_loop (context\<lparr>timeStamp := t\<rparr>) fs os i (mid @ GO_DATA_MESSAGE_TYPE_STAMP later # post) =
   dataset_loop (context\<lparr>timeStamp := t'\<rparr>) fs os i (mid @ GO_DATA_MESSAGE_TYPE_STAMP later # post)"
proof (induction mid arbitrary: "context" i t t')
  case Nil
  then show ?case by (simp add: stamp_loop_eq)
next
  case (Cons dataObj mid)
  show ?case
  proof (cases dataObj)
    case (GO_DATA_MESSAGE_TYPE_STAMP stampMsg0)
    then show ?thesis
      using Cons.IH [of t "context" "Suc i" t'] Cons.prems
      by (simp add: stamp_loop_eq)
  next
    case (GO_DATA_MESSAGE_TYPE_SURFACE surfaceMsg)
    then show ?thesis using Cons.prems by simp
  next
    case (GO_DATA_MESSAGE_TYPE_MEASUREMENT msgId measurementMsg)
    have swap: "c\<lparr>measFilePointer := X, timeStamp := u\<rparr> = c\<lparr>timeStamp := u, measFilePointer := X\<rparr>"
      for c :: DataContext and X u
      by simp
    from GO_DATA_MESSAGE_TYPE_MEASUREMENT show ?thesis
      using Cons.IH [of t "context\<lparr>measFilePointer := measFilePointer context @
          concat (map (\<lambda>measurementData.
            measurement_line (count context) msgId (m_value measurementData)) measurementMsg)\<rparr>"
          "Suc i" t'] Cons.prems
      by (simp add: measurement_loop_eq swap)
  next
    case GO_DATA_MESSAGE_TYPE_OTHER
    then show ?thesis
      using Cons.IH [of t "context" "Suc i" t'] Cons.prems by simp
  qed
qed

lemma dataset_loop_stamp_overwritten:
  assumes "surface_messages mid = 0" and "later \<noteq> []"
  shows "dataset_loop context fs os i
           (pre @ GO_DATA_MESSAGE_TYPE_STAMP stampMsg # mid @ GO_DATA_MESSAGE_TYPE_STAMP later # post) =
         dataset_loop context fs os i
           (pre @ GO_DATA_MESSAGE_TYPE_STAMP [] # mid @ GO_DATA_MESSAGE_TYPE_STAMP later # post)"
proof (induction pre arbitrary: "context" fs i)
  case Nil
  have c: "context\<lparr>timeStamp := timeStamp context\<rparr> = context"
    by simp
  show ?case
    using dataset_loop_stamp_ahead [OF assms, of "timestamp (last stampMsg)" "context" fs os "Suc i"
        post "timeStamp context"]
    by (simp add: stamp_loop_eq c)
next
  case (Cons dataObj pre)
  show ?case
  proof (cases dataObj)
    case (GO_DATA_MESSAGE_TYPE_STAMP stampMsg0)
    then show ?thesis by (simp add: Cons)
  next
    case (GO_DATA_MESSAGE_TYPE_SURFACE surfaceMsg)
    then show ?thesis
      by (cases "fopen_ok (os i)")
        (simp_all add: Cons surface_case_opened surface_case_not_opened)
  next
    case (GO_DATA_MESSAGE_TYPE_MEASUREMENT msgId measurementMsg)
    then show ?thesis by (simp add: Cons)
  next
    case GO_DATA_MESSAGE_TYPE_OTHER
    then show ?thesis by (simp add: Cons)
  qed
qed

text \<open>
  The counter over a whole session.
\<close>

lemma callbacks_count:
  "count (fst (callbacks context fs calls)) = count context + of_nat (session_surfaces calls)"
proof (induction calls arbitrary: "context" fs)
  case Nil
  then show ?case by (simp add: session_surfaces_def)
next
  case (Cons call calls)
  obtain os dataset where call: "call = (os, dataset)" by (cases call)
  obtain status context' fs' where r: "onData context fs os dataset = (status, context', fs')"
    by (cases "onData context fs os dataset")
  have "count context' = count context + of_nat (surface_messages (processed os 0 dataset))"
    using dataset_loop_count [of "context" fs os 0 dataset] r by (simp add: onData_def)
  then show ?case
    using Cons.IH [of context' fs'] r call by (simp add: session_surfaces_def)
qed

lemma session_surfaces_replicate:
  "session_surfaces (replicate n (os, dataset)) = n * surface_messages (processed os 0 dataset)"
  by (simp add: session_surfaces_def sum_list_replicate)

lemma unat_count_no_wrap:
  fixes c :: k32u
  assumes "unat c + n < 2 ^ 32"
  shows "unat (c + of_nat n) = unat c + n"
proof -
  have "unat (of_nat n :: k32u) = n"
    using assms by (simp add: unat_of_nat)
  then show ?thesis
    using assms by (simp add: unat_add_lem [THEN iffD1])
qed

section \<open>The lines of the log\<close>


























section \<open>The sample inputs\<close>

lemma wf_sample_surface: "wf_surface sample_surface"
  by (simp add: wf_surface_def sample_surface_def)

lemma row_fwrites_sample:
  "row_fwrites sample_surface = [(bytes_row [1, - 32768], 4), (bytes_row [- 2, 3], 4)]"
proof -
  have "[0..<2] = [0, Suc 0]" by (simp add: upt_rec)
  then show ?thesis
    by (simp add: row_fwrites_def sample_surface_def GoSurfaceMsg_RowAt_def)
qed

lemma fopen_ok_os_fine: "fopen_ok os_fine"
  by (simp add: os_fine_def)

lemma statuses_os_fine:
  "fst (surface_stream context os_fine sample_surface) = [1, 1, 1, 1, 1, 1, 1, 1, 1, 1, 1, 1, 1, 1]"
  by (simp add: surface_stream_def row_fwrites_sample
      header_fwrites_def Let_def fst_fwrite_seq_Cons os_fine_def)

lemma stream_sample:
  "snd (surface_stream context os_fine sample_surface) =
     header_bytes context sample_surface @ concat (map bytes_row (Rows sample_surface))"
  by (rule stream_all_written [OF wf_sample_surface]) (simp add: statuses_os_fine)

lemma length_stream_sample:
  "length (snd (surface_stream context os_fine sample_surface)) = 104"
proof -
  have "length (concat (map bytes_row (Rows sample_surface))) = 8"
    using length_rows_wf [OF wf_sample_surface] by (simp add: sample_surface_def)
  then show ?thesis
    by (simp add: stream_sample)
qed

lemma encoded_successfully_sample: "encoded_successfully context os_fine sample_surface"
proof -
  have "fopen_ok os_fine" and "fclose_cap os_fine = 4096"
    by (simp_all add: os_fine_def)
  then show ?thesis
    by (simp add: encoded_successfully_def statuses_os_fine fst_fclose length_stream_sample)
qed

lemma length_file_sample:
  "length (surface_file_bytes context os_fine sample_surface) = 104"
proof -
  have "fclose_cap os_fine = 4096" by (simp add: os_fine_def)
  then show ?thesis
    by (simp add: surface_file_bytes_def snd_fclose length_stream_sample)
qed

lemma statuses_os_short_write:
  "fst (surface_stream context os_short_write sample_surface) = [1, 1, 1, 1, 1, 1, 1, 1, 1, 1, 1, 1, 0, 1]"
  by (simp add: surface_stream_def row_fwrites_sample
      header_fwrites_def Let_def fst_fwrite_seq_Cons os_short_write_def)

lemma header_written_short_write: "header_written context os_short_write sample_surface"
  by (simp add: header_written_def statuses_os_short_write) (simp add: os_short_write_def)

lemma length_file_short_write:
  "length (surface_file_bytes context os_short_write sample_surface) = 101"
proof -
  have "length (snd (surface_stream context os_short_write sample_surface)) = 101"
    by (simp add: surface_stream_def row_fwrites_sample header_fwrites_def Let_def
        snd_fwrite_seq_Cons os_short_write_def)
  moreover have "fclose_cap os_short_write = 4096" by (simp add: os_short_write_def)
  ultimately show ?thesis
    by (simp add: surface_file_bytes_def snd_fclose)
qed

text \<open>
  The system whose stream takes every byte and whose file lacks the last three: every
  call of \<^verbatim>\<open>fwrite\<close> returns 1, \<^verbatim>\<open>fclose\<close> returns \<^verbatim>\<open>EOF\<close>, and the file has 101
  bytes.
\<close>

lemma surface_stream_short_flush:
  "surface_stream context os_short_flush sample_surface =
   surface_stream context os_fine sample_surface"
  by (simp add: surface_stream_def os_short_flush_def os_fine_def)

lemma length_file_short_flush:
  "length (surface_file_bytes context os_short_flush sample_surface) = 101"
proof -
  have "fclose_cap os_short_flush = 101" by (simp add: os_short_flush_def)
  then show ?thesis
    by (simp add: surface_file_bytes_def snd_fclose surface_stream_short_flush length_stream_sample)
qed

lemma fclose_short_flush:
  "fst (fclose (fclose_cap os_short_flush)
     (snd (surface_stream context os_short_flush sample_surface))) = EOF"
proof -
  have "fclose_cap os_short_flush = 101" by (simp add: os_short_flush_def)
  then show ?thesis
    by (simp add: fclose_def surface_stream_short_flush length_stream_sample)
qed

lemma sample_filename:
  "surface_filename sample_time 3 =
     ''D:'' @ [CHR 0x5C] @ ''GocatorDataOutput'' @ [CHR 0x5C] @
     ''2018-06-01_123045_0003_GocatorSurface.bin''"
  by (simp add: surface_filename_def sample_time_def ROOTFOLDER_def DATAFILENAMESUFFIX_def
      printf_eval)

lemma sample_value: "k64f_of_ratio 314159 100000 = 0x400921F9F01B866E"
  by (simp add: k64f_eval)


lemma sample_line_3:
  "measurement_line 3 7 0x400921F9F01B866E = ''   3;   7; 3.14'' @ [CHR 0x0D, CHR 0x0A]"
  by (simp add: measurement_line_def printf_eval)


lemmas read_eval =
  is_field_4_def is_fixed_2_def is_numeral_def is_digit_def number_of_def digit_value_def
  is_nearest_hundredth_def k64f_sign_def k64f_biased_exponent_def k64f_fraction_def
  k64f_significand_def k64f_exponent_def Let_def


lemma sample_fields_not:
  "\<not> is_field_4 2 ''  2'' \<and> \<not> is_field_4 2 ''   3'' \<and> \<not> is_field_4 12 ''   2'' \<and>
   \<not> is_fixed_2 0x400921F9F01B866E ''3.13'' \<and> \<not> is_fixed_2 0x400921F9F01B866E ''3.15'' \<and>
   \<not> is_fixed_2 0x400921F9F01B866E ''3.1'' \<and> \<not> is_fixed_2 0x400921F9F01B866E ''-3.14''"
  by (simp add: read_eval)

lemma processed_stamped:
  "processed (\<lambda>i. os_fine) 0 stamped_dataset =
     [GO_DATA_MESSAGE_TYPE_STAMP [\<lparr>timestamp = 1\<rparr>, \<lparr>timestamp = 2\<rparr>]] @
     GO_DATA_MESSAGE_TYPE_SURFACE sample_surface #
     [GO_DATA_MESSAGE_TYPE_STAMP [\<lparr>timestamp = 3\<rparr>]]"
  by (simp add: stamped_dataset_def fopen_ok_os_fine)

lemma surface_files_stamped:
  "surface_files sample_context (\<lambda>i. os_fine) stamped_dataset =
     [(surface_filename sample_time 3,
       surface_file_bytes (sample_context\<lparr>timeStamp := 2\<rparr>) os_fine sample_surface)]"
proof -
  have "[0..<3] = [0, 1, 2]"
    by (simp add: upt_rec)
  moreover have "SystemTime os_fine = sample_time" "count sample_context + 1 = 3"
    by (simp_all add: os_fine_def sample_context_def)
  ultimately show ?thesis
    by (simp add: surface_files_def processed_stamped fopen_ok_os_fine stamp_in_force_def)
qed

lemma session_sample:
  "session_surfaces
     [(\<lambda>i. os_fine, sample_dataset),
      (\<lambda>i. os_no_file,
       [GO_DATA_MESSAGE_TYPE_SURFACE sample_surface, GO_DATA_MESSAGE_TYPE_SURFACE sample_surface])] = 2"
  by (simp add: session_surfaces_def sample_dataset_def os_fine_def os_no_file_def)

section \<open>The properties\<close>

subsection \<open>The size of a surface file\<close>

text \<open>
  Claim C1 says that the file of a surface message that is encoded successfully is
  exactly 80 + 2 * width * length bytes long, a header of 80 bytes and the row data.
  The header that the code writes, and that the head of the source file lists, has
  twelve items of 16 + 8 + 4 + 4 + 8 * 8 = 96 bytes. The file of the sample surface,
  2 by 2 samples written without a failure, has 104 bytes and not 88.
\<close>

theorem surface_file_size_not_80:
  "0 < Width sample_surface \<and> 0 < Length sample_surface \<and>
   encoded_successfully sample_context os_fine sample_surface \<and>
   map (\<lambda>(name, bytes). length bytes)
     (snd (snd (surface_case sample_context [] os_fine sample_surface))) = [104] \<and>
   104 \<noteq> 80 + 2 * unat (Width sample_surface) * unat (Length sample_surface)"
proof -
  have "fopen_ok os_fine" by (simp add: os_fine_def)
  then have "map (\<lambda>(name, bytes). length bytes)
     (snd (snd (surface_case sample_context [] os_fine sample_surface))) = [104]"
    by (simp add: surface_case_opened length_file_sample)
  moreover have "0 < Width sample_surface \<and> 0 < Length sample_surface \<and>
     104 \<noteq> 80 + 2 * unat (Width sample_surface) * unat (Length sample_surface)"
    by (simp add: sample_surface_def)
  ultimately show ?thesis
    using encoded_successfully_sample [of sample_context] by blast
qed

text \<open>
  Claim C1, with the header of 96 bytes: for every surface message of positive width
  and length that is encoded successfully, the surface case writes one file, under the
  name made from the time and the incremented counter; the file is exactly
  96 + 2 * Width * Length bytes long, the 96 bytes of the header followed by the row
  data. (The surface message is one of the SDK, \<open>Length\<close> rows of \<open>Width\<close> samples.)
\<close>

theorem surface_file_size:
  assumes "wf_surface surfaceMsg" and "0 < Width surfaceMsg" and "0 < Length surfaceMsg"
    and "encoded_successfully context os surfaceMsg"
  shows "\<exists>bytes.
     surface_case context fs os surfaceMsg =
       (Break, context\<lparr>count := count context + 1\<rparr>,
        fs @ [(surface_filename (SystemTime os) (count context + 1), bytes)]) \<and>
     length bytes = 96 + 2 * unat (Width surfaceMsg) * unat (Length surfaceMsg) \<and>
     take 96 bytes = header_bytes context surfaceMsg \<and>
     drop 96 bytes = concat (map bytes_row (Rows surfaceMsg))"
proof -
  let ?context' = "context\<lparr>count := count context + 1\<rparr>"
  let ?bytes = "surface_file_bytes ?context' os surfaceMsg"
  from assms(4) have ok: "encoded_successfully ?context' os surfaceMsg"
    using encoded_successfully_context by blast
  then have "fopen_ok os"
    by (simp add: encoded_successfully_def)
  then have "surface_case context fs os surfaceMsg =
       (Break, ?context', fs @ [(surface_filename (SystemTime os) (count context + 1), ?bytes)])"
    by (rule surface_case_opened)
  moreover have bytes: "?bytes = header_bytes context surfaceMsg @ concat (map bytes_row (Rows surfaceMsg))"
    using file_complete [OF assms(1) ok] by simp
  moreover have "length ?bytes = 96 + 2 * unat (Width surfaceMsg) * unat (Length surfaceMsg)"
    unfolding bytes using length_rows_wf [OF assms(1)] by simp
  moreover have "take 96 ?bytes = header_bytes context surfaceMsg"
    unfolding bytes by simp
  moreover have "drop 96 ?bytes = concat (map bytes_row (Rows surfaceMsg))"
    unfolding bytes by simp
  ultimately show ?thesis by blast
qed

text \<open>
  The sample surface is such a message.
\<close>

theorem surface_file_size_witness:
  "wf_surface sample_surface \<and> 0 < Width sample_surface \<and> 0 < Length sample_surface \<and>
   encoded_successfully sample_context os_fine sample_surface \<and>
   (\<exists>bytes.
     surface_case sample_context [] os_fine sample_surface =
       (Break, sample_context\<lparr>count := count sample_context + 1\<rparr>,
        [] @ [(surface_filename (SystemTime os_fine) (count sample_context + 1), bytes)]) \<and>
     length bytes = 96 + 2 * unat (Width sample_surface) * unat (Length sample_surface) \<and>
     take 96 bytes = header_bytes sample_context sample_surface \<and>
     drop 96 bytes = concat (map bytes_row (Rows sample_surface)))"
proof -
  have w: "0 < Width sample_surface" and l: "0 < Length sample_surface"
    by (simp_all add: sample_surface_def)
  from surface_file_size [OF wf_sample_surface w l encoded_successfully_sample, of sample_context "[]"]
  show ?thesis
    using wf_sample_surface w l encoded_successfully_sample [of sample_context] by blast
qed

subsection \<open>A file that cannot be opened\<close>

text \<open>
  Claim C2 says that a failure to open or write one surface file does not keep the
  later messages of the same data set from being processed, and that no failure leaves
  the callback early. The code does go on after a failed write. After a failed
  \<^verbatim>\<open>fopen\<close> it executes \<^verbatim>\<open>return;\<close>: for the data set of a stamp, a surface and a
  measurement, the callback ends at the surface without a status and the measurement
  is not logged, while with a short write in place of the failed \<^verbatim>\<open>fopen\<close> the
  measurement is logged under the surface's number.
\<close>

theorem open_failure_ends_callback:
  "onData sample_context [] (\<lambda>i. os_no_file) sample_dataset =
     (None, sample_context\<lparr>timeStamp := 100, count := 3\<rparr>, []) \<and>
   measFilePointer (fst (snd (onData sample_context [] (\<lambda>i. os_no_file) sample_dataset))) = [] \<and>
   measFilePointer (fst (snd (onData sample_context [] (\<lambda>i. os_short_write) sample_dataset))) =
     ''   3;   7; 3.14'' @ [CHR 0x0D, CHR 0x0A]"
proof -
  have n: "\<not> fopen_ok os_no_file" by (simp add: os_no_file_def)
  have 1: "onData sample_context [] (\<lambda>i. os_no_file) sample_dataset =
     (None, sample_context\<lparr>timeStamp := 100, count := 3\<rparr>, [])"
    by (simp add: onData_def sample_dataset_def surface_case_not_opened [OF n] sample_context_def)
  have s: "fopen_ok os_short_write" by (simp add: os_short_write_def)
  have 2: "measFilePointer (fst (snd (onData sample_context [] (\<lambda>i. os_short_write) sample_dataset))) =
     measurement_line 3 7 0x400921F9F01B866E"
    by (simp only: onData_def dataset_loop_log)
      (simp add: sample_dataset_def s sample_context_def sample_measurement_def)
  show ?thesis
    using 1 2 by (simp add: sample_line_3 sample_context_def)
qed

subsection \<open>The time stamp of the first surface\<close>

text \<open>
  Claim C3 says that a surface file holds the time of the most recent stamp, and 0 when
  there has been no stamp. \<^verbatim>\<open>main\<close> assigns \<open>count\<close> but never \<open>timeStamp\<close>, so
  without a stamp the file holds what the stack held: with the context that \<open>main\<close>
  makes from a stack full of \<^verbatim>\<open>0xCC\<close>, the first data set being a single surface, the
  callback succeeds and the time stamp in the file is \<^verbatim>\<open>0xCCCCCCCCCCCCCCCC\<close>.
\<close>

theorem timestamp_without_stamp:
  "timeStamp armed_context = 0xCCCCCCCCCCCCCCCC \<and>
   fst (onData armed_context [] (\<lambda>i. os_fine) [GO_DATA_MESSAGE_TYPE_SURFACE sample_surface]) =
     Some kOK \<and>
   map (\<lambda>(name, bytes). file_timeStamp (read_surface_file bytes))
     (snd (snd (onData armed_context [] (\<lambda>i. os_fine)
        [GO_DATA_MESSAGE_TYPE_SURFACE sample_surface]))) = [0xCCCCCCCCCCCCCCCC]"
proof -
  have t: "timeStamp armed_context = 0xCCCCCCCCCCCCCCCC"
    by (simp add: armed_context_def main_context_def stack_garbage_def)
  have h: "header_written armed_context os_fine sample_surface"
    by (rule encoded_successfully_header) (rule encoded_successfully_sample)
  from surface_case_header [OF h, of "[]"] obtain written where
    "surface_case armed_context [] os_fine sample_surface =
       (Break, armed_context\<lparr>count := count armed_context + 1\<rparr>,
        [] @ [(surface_filename (SystemTime os_fine) (count armed_context + 1),
               header_bytes armed_context sample_surface @ written)])"
    by blast
  then show ?thesis
    using t by (simp add: onData_def read_header)
qed

subsection \<open>A file written in part\<close>

text \<open>
  Claim C4 says that encoding is atomic: either the complete file is visible under its
  final name or nothing is, also after a short write. The code opens the file under its
  final name and writes into it. With a stream that takes one byte of the first row of
  the sample surface, the thirteenth call of \<^verbatim>\<open>fwrite\<close> returns 0 and a file of 101
  bytes, fewer than the 104 of the complete file, is left under the final name. The
  same file is left by a stream that takes every byte, all calls of \<^verbatim>\<open>fwrite\<close>
  returning 1, when the last three bytes do not reach the file.
\<close>

theorem partial_file_left:
  "fopen_ok os_short_write \<and>
   fst (surface_stream (sample_context\<lparr>count := 3\<rparr>) os_short_write sample_surface) =
     [1, 1, 1, 1, 1, 1, 1, 1, 1, 1, 1, 1, 0, 1] \<and>
   map_option length
     (visible (snd (snd (surface_case sample_context [] os_short_write sample_surface)))
        (surface_filename sample_time 3)) = Some 101 \<and>
   fopen_ok os_short_flush \<and>
   fst (surface_stream (sample_context\<lparr>count := 3\<rparr>) os_short_flush sample_surface) =
     [1, 1, 1, 1, 1, 1, 1, 1, 1, 1, 1, 1, 1, 1] \<and>
   fst (fclose (fclose_cap os_short_flush)
     (snd (surface_stream (sample_context\<lparr>count := 3\<rparr>) os_short_flush sample_surface))) = EOF \<and>
   map_option length
     (visible (snd (snd (surface_case sample_context [] os_short_flush sample_surface)))
        (surface_filename sample_time 3)) = Some 101 \<and>
   101 < 96 + 2 * unat (Width sample_surface) * unat (Length sample_surface)"
proof -
  have o: "fopen_ok os_short_write" by (simp add: os_short_write_def)
  have t: "SystemTime os_short_write = sample_time" by (simp add: os_short_write_def)
  have o': "fopen_ok os_short_flush" by (simp add: os_short_flush_def)
  have t': "SystemTime os_short_flush = sample_time" by (simp add: os_short_flush_def)
  have c: "count sample_context + 1 = 3" by (simp add: sample_context_def)
  have "map_option length
     (visible (snd (snd (surface_case sample_context [] os_short_write sample_surface)))
        (surface_filename sample_time 3)) = Some 101"
    by (simp add: surface_case_opened [OF o] t c visible_def length_file_short_write)
  moreover have "map_option length
     (visible (snd (snd (surface_case sample_context [] os_short_flush sample_surface)))
        (surface_filename sample_time 3)) = Some 101"
    by (simp add: surface_case_opened [OF o'] t' c visible_def length_file_short_flush)
  moreover have "101 < 96 + 2 * unat (Width sample_surface) * unat (Length sample_surface)"
    by (simp add: sample_surface_def)
  moreover have "fst (surface_stream (sample_context\<lparr>count := 3\<rparr>) os_short_flush sample_surface) =
     [1, 1, 1, 1, 1, 1, 1, 1, 1, 1, 1, 1, 1, 1]"
    by (simp only: surface_stream_short_flush statuses_os_fine)
  ultimately show ?thesis
    using o o' statuses_os_short_write fclose_short_flush by simp
qed

text \<open>
  Claim C4, as the code has it. Encoding is not atomic: the file is opened under its
  final name and written in place. If \<^verbatim>\<open>fopen\<close> fails, no file is made or changed. If
  it succeeds, the file seen under the final name after the surface case holds the
  bytes that have reached it, whatever the calls of \<^verbatim>\<open>fwrite\<close> and \<^verbatim>\<open>fclose\<close> have
  returned: after a short write a file written in part is left under the final name.
\<close>

theorem surface_file_in_place:
  "visible (snd (snd (surface_case context fs os surfaceMsg)))
     (surface_filename (SystemTime os) (count context + 1)) =
     (if fopen_ok os
      then Some (surface_file_bytes (context\<lparr>count := count context + 1\<rparr>) os surfaceMsg)
      else visible fs (surface_filename (SystemTime os) (count context + 1))) \<and>
   snd (snd (surface_case context fs os surfaceMsg)) =
     fs @ (if fopen_ok os
           then [(surface_filename (SystemTime os) (count context + 1),
                  surface_file_bytes (context\<lparr>count := count context + 1\<rparr>) os surfaceMsg)]
           else [])"
  by (cases "fopen_ok os")
    (simp_all add: surface_case_opened surface_case_not_opened visible_last)

text \<open>
  The sample surface with the short write: the file of 101 bytes is the one seen
  under the final name.
\<close>

theorem surface_file_in_place_witness:
  "fopen_ok os_short_write \<and>
   visible (snd (snd (surface_case sample_context [] os_short_write sample_surface)))
     (surface_filename (SystemTime os_short_write) (count sample_context + 1)) =
     Some (surface_file_bytes (sample_context\<lparr>count := count sample_context + 1\<rparr>)
       os_short_write sample_surface) \<and>
   length (surface_file_bytes (sample_context\<lparr>count := count sample_context + 1\<rparr>)
     os_short_write sample_surface) = 101"
proof -
  have o: "fopen_ok os_short_write" by (simp add: os_short_write_def)
  from surface_file_in_place [of sample_context "[]" os_short_write sample_surface]
  show ?thesis
    using o by (simp add: length_file_short_write visible_def)
qed

subsection \<open>The line of a measurement\<close>




subsection \<open>The scan counter\<close>

text \<open>
  Claim C6 says that the counter starts at zero, goes up by one for every surface
  message processed and for nothing else, and never goes down or back to zero during a
  session. The counter is a \<^verbatim>\<open>k32u\<close>: after 4294967295 surfaces it is 4294967295, and
  the next surface takes it back to 0.
\<close>

theorem scan_counter_wraps:
  "count (fst (callbacks (main_context stack_garbage 0x4014000000000000 0x408F400000000000) []
     (replicate 4294967295 (\<lambda>i. os_fine, [GO_DATA_MESSAGE_TYPE_SURFACE sample_surface])))) = 4294967295 \<and>
   count (fst (callbacks (main_context stack_garbage 0x4014000000000000 0x408F400000000000) []
     (replicate 4294967296 (\<lambda>i. os_fine, [GO_DATA_MESSAGE_TYPE_SURFACE sample_surface])))) = 0"
  by (simp add: callbacks_count session_surfaces_replicate main_context_def os_fine_def)

text \<open>
  Claim C6, for a counter of 32 bits: the counter is zero when \<open>main\<close> hands the context
  to the SDK; after any number of calls of the callback it is the counter before them
  plus the number of surface messages the calls got to, modulo \<open>2 ^ 32\<close>, whatever other
  messages there were; and as long as that sum stays below \<open>2 ^ 32\<close> the counter is the
  sum itself, so it has not gone down or back to zero.
\<close>

theorem scan_counter:
  "count (main_context contextPointer GoSetup_FrameRate GoSetup_Exposure) = 0 \<and>
   count (fst (callbacks context fs calls)) = count context + of_nat (session_surfaces calls) \<and>
   (unat (count context) + session_surfaces calls < 2 ^ 32 \<longrightarrow>
      unat (count (fst (callbacks context fs calls))) =
        unat (count context) + session_surfaces calls)"
  by (simp add: main_context_def callbacks_count unat_count_no_wrap)

text \<open>
  A session of two calls: a stamp, a surface and a measurement; then two surfaces, of
  which the first cannot be opened, so that the callback does not get to the second.
\<close>

theorem scan_counter_witness:
  "unat (count armed_context) +
     session_surfaces
       [(\<lambda>i. os_fine, sample_dataset),
        (\<lambda>i. os_no_file,
         [GO_DATA_MESSAGE_TYPE_SURFACE sample_surface, GO_DATA_MESSAGE_TYPE_SURFACE sample_surface])]
     < 2 ^ 32 \<and>
   unat (count (fst (callbacks armed_context []
       [(\<lambda>i. os_fine, sample_dataset),
        (\<lambda>i. os_no_file,
         [GO_DATA_MESSAGE_TYPE_SURFACE sample_surface, GO_DATA_MESSAGE_TYPE_SURFACE sample_surface])]))) = 2"
proof -
  have c: "count armed_context = 0"
    by (simp add: armed_context_def main_context_def)
  from scan_counter [of stack_garbage "0x4014000000000000" "0x408F400000000000" armed_context "[]"
      "[(\<lambda>i. os_fine, sample_dataset),
        (\<lambda>i. os_no_file,
         [GO_DATA_MESSAGE_TYPE_SURFACE sample_surface, GO_DATA_MESSAGE_TYPE_SURFACE sample_surface])]"]
  show ?thesis
    by (simp only: session_sample c) simp
qed

subsection \<open>Resolutions and offsets\<close>

text \<open>
  Claim C7: in the file of every surface message whose header is written, each
  resolution is \<^verbatim>\<open>NM_TO_MM\<close> of the sensor's value, the value in nanometres divided by
  1000000, and each offset is \<^verbatim>\<open>UM_TO_MM\<close> of the sensor's value, the value in
  micrometres divided by 1000, each at its place in the header. The division is that
  of the type \<^verbatim>\<open>double\<close>: the field is the quotient to within half a unit of its last
  place. 1000000 nm and 1000 \<open>\<mu>m\<close> both give the \<^verbatim>\<open>double\<close>
  \<^verbatim>\<open>0x3FF0000000000000\<close>, which is 1.0 exactly (significand \<open>2 ^ 52\<close>, exponent
  \<open>- 52\<close>).
\<close>

theorem header_conversions:
  assumes "header_written context os surfaceMsg"
  shows "(\<exists>bytes.
     surface_case context fs os surfaceMsg =
       (Break, context\<lparr>count := count context + 1\<rparr>,
        fs @ [(surface_filename (SystemTime os) (count context + 1), bytes)]) \<and>
     file_xResolution (read_surface_file bytes) = NM_TO_MM (uint (XResolution surfaceMsg)) \<and>
     file_yResolution (read_surface_file bytes) = NM_TO_MM (uint (YResolution surfaceMsg)) \<and>
     file_zResolution (read_surface_file bytes) = NM_TO_MM (uint (ZResolution surfaceMsg)) \<and>
     file_xOffset (read_surface_file bytes) = UM_TO_MM (sint (XOffset surfaceMsg)) \<and>
     file_yOffset (read_surface_file bytes) = UM_TO_MM (sint (YOffset surfaceMsg)) \<and>
     file_zOffset (read_surface_file bytes) = UM_TO_MM (sint (ZOffset surfaceMsg)) \<and>
     k64f_within_half_ulp (file_xResolution (read_surface_file bytes))
       (uint (XResolution surfaceMsg)) 1000000 \<and>
     k64f_within_half_ulp (file_yResolution (read_surface_file bytes))
       (uint (YResolution surfaceMsg)) 1000000 \<and>
     k64f_within_half_ulp (file_zResolution (read_surface_file bytes))
       (uint (ZResolution surfaceMsg)) 1000000 \<and>
     k64f_within_half_ulp (file_xOffset (read_surface_file bytes))
       (sint (XOffset surfaceMsg)) 1000 \<and>
     k64f_within_half_ulp (file_yOffset (read_surface_file bytes))
       (sint (YOffset surfaceMsg)) 1000 \<and>
     k64f_within_half_ulp (file_zOffset (read_surface_file bytes))
       (sint (ZOffset surfaceMsg)) 1000) \<and>
   NM_TO_MM 1000000 = 0x3FF0000000000000 \<and>
   UM_TO_MM 1000 = 0x3FF0000000000000 \<and>
   \<not> k64f_sign 0x3FF0000000000000 \<and>
   k64f_significand 0x3FF0000000000000 = 2 ^ 52 \<and>
   k64f_exponent 0x3FF0000000000000 = - 52"
proof -
  from surface_case_header [OF assms, of fs] obtain written where
    "surface_case context fs os surfaceMsg =
       (Break, context\<lparr>count := count context + 1\<rparr>,
        fs @ [(surface_filename (SystemTime os) (count context + 1),
               header_bytes context surfaceMsg @ written)])"
    by blast
  then have "\<exists>bytes.
     surface_case context fs os surfaceMsg =
       (Break, context\<lparr>count := count context + 1\<rparr>,
        fs @ [(surface_filename (SystemTime os) (count context + 1), bytes)]) \<and>
     file_xResolution (read_surface_file bytes) = NM_TO_MM (uint (XResolution surfaceMsg)) \<and>
     file_yResolution (read_surface_file bytes) = NM_TO_MM (uint (YResolution surfaceMsg)) \<and>
     file_zResolution (read_surface_file bytes) = NM_TO_MM (uint (ZResolution surfaceMsg)) \<and>
     file_xOffset (read_surface_file bytes) = UM_TO_MM (sint (XOffset surfaceMsg)) \<and>
     file_yOffset (read_surface_file bytes) = UM_TO_MM (sint (YOffset surfaceMsg)) \<and>
     file_zOffset (read_surface_file bytes) = UM_TO_MM (sint (ZOffset surfaceMsg)) \<and>
     k64f_within_half_ulp (file_xResolution (read_surface_file bytes))
       (uint (XResolution surfaceMsg)) 1000000 \<and>
     k64f_within_half_ulp (file_yResolution (read_surface_file bytes))
       (uint (YResolution surfaceMsg)) 1000000 \<and>
     k64f_within_half_ulp (file_zResolution (read_surface_file bytes))
       (uint (ZResolution surfaceMsg)) 1000000 \<and>
     k64f_within_half_ulp (file_xOffset (read_surface_file bytes))
       (sint (XOffset surfaceMsg)) 1000 \<and>
     k64f_within_half_ulp (file_yOffset (read_surface_file bytes))
       (sint (YOffset surfaceMsg)) 1000 \<and>
     k64f_within_half_ulp (file_zOffset (read_surface_file bytes))
       (sint (ZOffset surfaceMsg)) 1000"
    by (simp add: read_header NM_TO_MM_accurate UM_TO_MM_accurate)
  moreover have "NM_TO_MM 1000000 = 0x3FF0000000000000 \<and> UM_TO_MM 1000 = 0x3FF0000000000000"
    by (simp add: k64f_eval)
  moreover have "\<not> k64f_sign 0x3FF0000000000000 \<and>
      k64f_significand 0x3FF0000000000000 = 2 ^ 52 \<and>
      k64f_exponent 0x3FF0000000000000 = - 52"
    by (simp add: k64f_sign_def k64f_significand_def k64f_exponent_def
        k64f_biased_exponent_def k64f_fraction_def)
  ultimately show ?thesis by blast
qed

text \<open>
  The sample surface with the short write: its header is written, its rows are not.
\<close>

theorem header_conversions_witness:
  "header_written sample_context os_short_write sample_surface \<and>
   (\<exists>bytes.
     surface_case sample_context [] os_short_write sample_surface =
       (Break, sample_context\<lparr>count := count sample_context + 1\<rparr>,
        [] @ [(surface_filename (SystemTime os_short_write) (count sample_context + 1), bytes)]) \<and>
     file_xResolution (read_surface_file bytes) = NM_TO_MM (uint (XResolution sample_surface)) \<and>
     file_yResolution (read_surface_file bytes) = NM_TO_MM (uint (YResolution sample_surface)) \<and>
     file_zResolution (read_surface_file bytes) = NM_TO_MM (uint (ZResolution sample_surface)) \<and>
     file_xOffset (read_surface_file bytes) = UM_TO_MM (sint (XOffset sample_surface)) \<and>
     file_yOffset (read_surface_file bytes) = UM_TO_MM (sint (YOffset sample_surface)) \<and>
     file_zOffset (read_surface_file bytes) = UM_TO_MM (sint (ZOffset sample_surface)) \<and>
     k64f_within_half_ulp (file_xResolution (read_surface_file bytes))
       (uint (XResolution sample_surface)) 1000000 \<and>
     k64f_within_half_ulp (file_yResolution (read_surface_file bytes))
       (uint (YResolution sample_surface)) 1000000 \<and>
     k64f_within_half_ulp (file_zResolution (read_surface_file bytes))
       (uint (ZResolution sample_surface)) 1000000 \<and>
     k64f_within_half_ulp (file_xOffset (read_surface_file bytes))
       (sint (XOffset sample_surface)) 1000 \<and>
     k64f_within_half_ulp (file_yOffset (read_surface_file bytes))
       (sint (YOffset sample_surface)) 1000 \<and>
     k64f_within_half_ulp (file_zOffset (read_surface_file bytes))
       (sint (ZOffset sample_surface)) 1000)"
  using header_conversions [OF header_written_short_write, of sample_context "[]"]
    header_written_short_write [of sample_context]
  by blast

subsection \<open>The samples\<close>

text \<open>
  Claim C8: in the file of every well-formed surface message that is encoded
  successfully, the bytes after the header are the samples of the rows, first row
  first, two bytes each with nothing between them, and reading them gives every sample
  back as it was; the mark \<open>- 32768\<close> of a point without data is written as the bytes
  \<^verbatim>\<open>00 80\<close> and read back as \<open>- 32768\<close>.
\<close>

theorem samples_unchanged:
  assumes "wf_surface surfaceMsg" and "encoded_successfully context os surfaceMsg"
  shows "(\<exists>bytes.
     surface_case context fs os surfaceMsg =
       (Break, context\<lparr>count := count context + 1\<rparr>,
        fs @ [(surface_filename (SystemTime os) (count context + 1), bytes)]) \<and>
     drop 96 bytes = bytes_row (concat (Rows surfaceMsg)) \<and>
     file_surface (read_surface_file bytes) = concat (Rows surfaceMsg)) \<and>
   bytes_k16s (- 32768) = [0x00, 0x80] \<and>
   samples [0x00, 0x80] = [- 32768] \<and>
   sint (- 32768 :: k16s) = - 32768"
proof -
  let ?context' = "context\<lparr>count := count context + 1\<rparr>"
  let ?bytes = "surface_file_bytes ?context' os surfaceMsg"
  from assms(2) have ok: "encoded_successfully ?context' os surfaceMsg"
    using encoded_successfully_context by blast
  then have "fopen_ok os"
    by (simp add: encoded_successfully_def)
  then have "surface_case context fs os surfaceMsg =
       (Break, ?context', fs @ [(surface_filename (SystemTime os) (count context + 1), ?bytes)])"
    by (rule surface_case_opened)
  moreover have bytes: "?bytes = header_bytes context surfaceMsg @ concat (map bytes_row (Rows surfaceMsg))"
    using file_complete [OF assms(1) ok] by simp
  moreover have "drop 96 ?bytes = bytes_row (concat (Rows surfaceMsg))"
    unfolding bytes by (simp add: bytes_row_concat)
  moreover have "file_surface (read_surface_file ?bytes) = concat (Rows surfaceMsg)"
    unfolding bytes by (simp add: read_header samples_rows)
  moreover have "bytes_k16s (- 32768) = [0x00, 0x80] \<and> samples [0x00, 0x80] = [- 32768] \<and>
      sint (- 32768 :: k16s) = - 32768"
    by (simp add: bytes_k16s_def le_bytes_2)
  ultimately show ?thesis by blast
qed

text \<open>
  The sample surface, which has the mark in its first row.
\<close>

theorem samples_unchanged_witness:
  "wf_surface sample_surface \<and> encoded_successfully sample_context os_fine sample_surface \<and>
   (\<exists>bytes.
     surface_case sample_context [] os_fine sample_surface =
       (Break, sample_context\<lparr>count := count sample_context + 1\<rparr>,
        [] @ [(surface_filename (SystemTime os_fine) (count sample_context + 1), bytes)]) \<and>
     drop 96 bytes = bytes_row (concat (Rows sample_surface)) \<and>
     file_surface (read_surface_file bytes) = concat (Rows sample_surface))"
  using samples_unchanged [OF wf_sample_surface encoded_successfully_sample, of sample_context "[]"]
    wf_sample_surface encoded_successfully_sample [of sample_context]
  by blast

subsection \<open>The counter and the file\<close>

text \<open>
  Claim C9: the surface case increments the counter before it opens the file. Whatever
  the system answers, the counter is one more after the surface case; the only file
  name the case uses is made with the incremented counter; and when the file cannot
  be opened, the case leaves the callback with the counter incremented and no file
  written: the surface has used up its number.
\<close>

theorem counter_before_fopen:
  "count (fst (snd (surface_case context fs os surfaceMsg))) = count context + 1 \<and>
   fst ` set (snd (snd (surface_case context fs os surfaceMsg))) \<subseteq>
     fst ` set fs \<union> {surface_filename (SystemTime os) (count context + 1)} \<and>
   (\<not> fopen_ok os \<longrightarrow>
      surface_case context fs os surfaceMsg =
        (Return, context\<lparr>count := count context + 1\<rparr>, fs))"
  by (cases "fopen_ok os") (auto simp: surface_case_opened surface_case_not_opened)

text \<open>
  The sample surface on a system that cannot open the file.
\<close>

theorem counter_before_fopen_witness:
  "\<not> fopen_ok os_no_file \<and>
   surface_case sample_context [] os_no_file sample_surface =
     (Return, sample_context\<lparr>count := count sample_context + 1\<rparr>, []) \<and>
   count (fst (snd (surface_case sample_context [] os_no_file sample_surface))) = 3"
proof -
  have h: "\<not> fopen_ok os_no_file" by (simp add: os_no_file_def)
  with counter_before_fopen [of sample_context "[]" os_no_file sample_surface]
  show ?thesis by (simp add: sample_context_def)
qed

subsection \<open>Several stamps in one call\<close>

text \<open>
  Claim C10 says that after a call with several stamps the context holds the time of
  the last stamp processed, and that all earlier times of the call are overwritten
  without reaching any output. For a data set of a stamp message with the times 1 and
  2, a surface, and a stamp message with the time 3, the context holds 3 after the call,
  and the file of the surface holds the earlier time 2.
\<close>

theorem earlier_stamp_reaches_file:
  "timeStamp (fst (snd (onData sample_context [] (\<lambda>i. os_fine) stamped_dataset))) = 3 \<and>
   map (\<lambda>(name, bytes). file_timeStamp (read_surface_file bytes))
     (snd (snd (onData sample_context [] (\<lambda>i. os_fine) stamped_dataset))) = [2]"
proof -
  have h: "\<And>c. header_written c os_fine sample_surface"
    by (rule encoded_successfully_header) (rule encoded_successfully_sample)
  show ?thesis
    by (simp add: onData_def stamped_dataset_def surface_case_opened fopen_ok_os_fine
        file_timeStamp [OF h])
qed

text \<open>
  Claim C10, as the code has it. When a call of the callback gets to at least one
  stamp, the context holds the time of the last of them after the call. A stamp that is
  overwritten before the call gets to a surface message has no effect on what the call
  returns, context and files: a stamp message can be cut down to its last stamp, and a
  stamp message that is followed by a stamp message with a stamp, with no surface
  message between them, can be emptied. The call leaves the context with the counter
  advanced, the time stamp in force after its messages and the lines of its
  measurements added to the log; and it leaves the files that were there followed by
  one file for each surface message whose file is opened, and no other file. The file
  of a surface message is made with the time stamp in force at that message, which is
  the time of the last stamp before the message in the call, or that of the context at
  the start of the call when there is none; the file holds that time in its header when
  the header is written. So an earlier time of the call is attached to an output only
  by being the one in force at a surface message.
\<close>

theorem stamps_in_one_call:
  "(stamp_records (processed os 0 dataset) \<noteq> [] \<longrightarrow>
      timeStamp (fst (snd (onData context fs os dataset))) =
        timestamp (last (stamp_records (processed os 0 dataset)))) \<and>
   (stampMsg \<noteq> [] \<longrightarrow>
      onData context fs os (pre @ GO_DATA_MESSAGE_TYPE_STAMP stampMsg # post) =
      onData context fs os (pre @ GO_DATA_MESSAGE_TYPE_STAMP [last stampMsg] # post)) \<and>
   (surface_messages mid = 0 \<and> later \<noteq> [] \<longrightarrow>
      onData context fs os
        (pre @ GO_DATA_MESSAGE_TYPE_STAMP stampMsg # mid @ GO_DATA_MESSAGE_TYPE_STAMP later # post) =
      onData context fs os
        (pre @ GO_DATA_MESSAGE_TYPE_STAMP [] # mid @ GO_DATA_MESSAGE_TYPE_STAMP later # post)) \<and>
   fst (snd (onData context fs os dataset)) =
     context
       \<lparr>count := count context + of_nat (surface_messages (processed os 0 dataset)),
        timeStamp := stamp_in_force (timeStamp context) (processed os 0 dataset),
        measFilePointer :=
          measFilePointer context @ measurement_lines (count context) (processed os 0 dataset)\<rparr> \<and>
   snd (snd (onData context fs os dataset)) = fs @ surface_files context os dataset \<and>
   (header_written c os' surfaceMsg \<longrightarrow>
      file_timeStamp (read_surface_file (surface_file_bytes c os' surfaceMsg)) = timeStamp c)"
proof (intro conjI impI)
  assume "stamp_records (processed os 0 dataset) \<noteq> []"
  then show "timeStamp (fst (snd (onData context fs os dataset))) =
      timestamp (last (stamp_records (processed os 0 dataset)))"
    by (simp only: onData_def dataset_loop_timeStamp if_False)
next
  assume "stampMsg \<noteq> []"
  then show "onData context fs os (pre @ GO_DATA_MESSAGE_TYPE_STAMP stampMsg # post) =
      onData context fs os (pre @ GO_DATA_MESSAGE_TYPE_STAMP [last stampMsg] # post)"
    unfolding onData_def by (rule dataset_loop_stamp_last)
next
  assume "surface_messages mid = 0 \<and> later \<noteq> []"
  then have "surface_messages mid = 0" and "later \<noteq> []"
    by simp_all
  then show "onData context fs os
        (pre @ GO_DATA_MESSAGE_TYPE_STAMP stampMsg # mid @ GO_DATA_MESSAGE_TYPE_STAMP later # post) =
      onData context fs os
        (pre @ GO_DATA_MESSAGE_TYPE_STAMP [] # mid @ GO_DATA_MESSAGE_TYPE_STAMP later # post)"
    unfolding onData_def by (rule dataset_loop_stamp_overwritten)
next
  show "fst (snd (onData context fs os dataset)) =
     context
       \<lparr>count := count context + of_nat (surface_messages (processed os 0 dataset)),
        timeStamp := stamp_in_force (timeStamp context) (processed os 0 dataset),
        measFilePointer :=
          measFilePointer context @ measurement_lines (count context) (processed os 0 dataset)\<rparr>"
    by (simp only: onData_def dataset_loop_context)
next
  show "snd (snd (onData context fs os dataset)) = fs @ surface_files context os dataset"
    by (simp only: onData_def dataset_loop_surface_files)
next
  assume "header_written c os' surfaceMsg"
  then show "file_timeStamp (read_surface_file (surface_file_bytes c os' surfaceMsg)) =
      timeStamp c"
    by (rule file_timeStamp)
qed

text \<open>
  The data set of the counterexample: the call gets to stamps, and to a surface after
  the first stamp message; the one file of the call holds the time 2, which is in force
  after the first stamp message. The time 1 of that message is overwritten at once,
  and with a measurement in the place of the surface both times of the message are
  overwritten by the time 3.
\<close>

theorem stamps_in_one_call_witness:
  "stamp_records (processed (\<lambda>i. os_fine) 0 stamped_dataset) \<noteq> [] \<and>
   [\<lparr>timestamp = 1\<rparr>, \<lparr>timestamp = 2\<rparr>] \<noteq> [] \<and>
   surface_messages [GO_DATA_MESSAGE_TYPE_MEASUREMENT 7 [sample_measurement]] = 0 \<and>
   [\<lparr>timestamp = 3\<rparr>] \<noteq> [] \<and>
   header_written (sample_context\<lparr>timeStamp := 2\<rparr>) os_fine sample_surface \<and>
   timeStamp (fst (snd (onData sample_context [] (\<lambda>i. os_fine) stamped_dataset))) = 3 \<and>
   onData sample_context [] (\<lambda>i. os_fine)
     [GO_DATA_MESSAGE_TYPE_STAMP [\<lparr>timestamp = 1\<rparr>, \<lparr>timestamp = 2\<rparr>]] =
   onData sample_context [] (\<lambda>i. os_fine) [GO_DATA_MESSAGE_TYPE_STAMP [\<lparr>timestamp = 2\<rparr>]] \<and>
   onData sample_context [] (\<lambda>i. os_fine)
     [GO_DATA_MESSAGE_TYPE_STAMP [\<lparr>timestamp = 1\<rparr>, \<lparr>timestamp = 2\<rparr>],
      GO_DATA_MESSAGE_TYPE_MEASUREMENT 7 [sample_measurement],
      GO_DATA_MESSAGE_TYPE_STAMP [\<lparr>timestamp = 3\<rparr>]] =
   onData sample_context [] (\<lambda>i. os_fine)
     [GO_DATA_MESSAGE_TYPE_STAMP [],
      GO_DATA_MESSAGE_TYPE_MEASUREMENT 7 [sample_measurement],
      GO_DATA_MESSAGE_TYPE_STAMP [\<lparr>timestamp = 3\<rparr>]] \<and>
   snd (snd (onData sample_context [] (\<lambda>i. os_fine) stamped_dataset)) =
     [(surface_filename sample_time 3,
       surface_file_bytes (sample_context\<lparr>timeStamp := 2\<rparr>) os_fine sample_surface)] \<and>
   stamp_in_force (timeStamp sample_context)
     [GO_DATA_MESSAGE_TYPE_STAMP [\<lparr>timestamp = 1\<rparr>, \<lparr>timestamp = 2\<rparr>]] = 2 \<and>
   file_timeStamp (read_surface_file
     (surface_file_bytes (sample_context\<lparr>timeStamp := 2\<rparr>) os_fine sample_surface)) = 2"
proof -
  have h: "header_written sample_context os_fine sample_surface"
    by (rule encoded_successfully_header) (rule encoded_successfully_sample)
  have h2: "header_written (sample_context\<lparr>timeStamp := 2\<rparr>) os_fine sample_surface"
    using h header_written_context by blast
  have s: "stamp_records (processed (\<lambda>i. os_fine) 0 stamped_dataset) \<noteq> []"
    by (simp add: processed_stamped)
  have l: "timestamp (last (stamp_records (processed (\<lambda>i. os_fine) 0 stamped_dataset))) = 3"
    by (simp add: processed_stamped)
  have f: "stamp_in_force (timeStamp sample_context)
     [GO_DATA_MESSAGE_TYPE_STAMP [\<lparr>timestamp = 1\<rparr>, \<lparr>timestamp = 2\<rparr>]] = 2"
    by (simp add: stamp_in_force_def)
  from stamps_in_one_call [of "\<lambda>i. os_fine" stamped_dataset sample_context "[]"
      "[\<lparr>timestamp = 1\<rparr>, \<lparr>timestamp = 2\<rparr>]" "[]" "[]"
      "[GO_DATA_MESSAGE_TYPE_MEASUREMENT 7 [sample_measurement]]" "[\<lparr>timestamp = 3\<rparr>]"
      "sample_context\<lparr>timeStamp := 2\<rparr>" os_fine sample_surface]
  show ?thesis
    using h2 s l f by (simp add: surface_files_stamped stamp_in_force_def)
qed

end
